theory Spec2Isabelle
  imports Main "HOL-Library.AList"
begin

section \<open>Data model\<close>

text \<open>
  The reset service of \<^verbatim>\<open>src/services/plc-reset-service.js\<close> (class
  \<^verbatim>\<open>PLCResetService\<close>) together with the configuration of
  \<^verbatim>\<open>config/machines.config.js\<close>.

  A \<^verbatim>\<open>moment\<close> value in the configured timezone is reduced to what the service reads
  from it: the calendar day (compared by \<^verbatim>\<open>isSame(now, 'day')\<close>), \<^verbatim>\<open>hour()\<close> and
  \<^verbatim>\<open>minute()\<close>.
\<close>

type_synonym machineCode = string

record moment =
  dayOf :: int
  hourOf :: int
  minuteOf :: int

definition isSameDay :: "moment \<Rightarrow> moment \<Rightarrow> bool" where
  "isSameDay a b = (dayOf a = dayOf b)"

record registers =
  startAddress :: int
  regLength :: int
  counterAddress :: int

record machine_config =
  machineCode :: machineCode
  host :: string
  port :: int
  registers :: registers

record reset_schedule =
  hour :: int
  minute :: int
  timezone :: string

record global_config =
  readInterval :: nat
  reconnectDelay :: nat
  connectionTimeout :: nat
  maxRetries :: nat
  resetSchedule :: reset_schedule

text \<open>The two exported values of \<^verbatim>\<open>config/machines.config.js\<close>.\<close>

definition mkMachineConfig :: "machineCode \<Rightarrow> string \<Rightarrow> machine_config" where
  "mkMachineConfig c h =
     \<lparr>machineCode = c, host = h, port = 502,
      registers = \<lparr>startAddress = 45, regLength = 3, counterAddress = 47\<rparr>\<rparr>"

definition machinesConfig :: "machine_config list" where
  "machinesConfig =
     [mkMachineConfig ''45051'' ''10.42.46.1'',
      mkMachineConfig ''45050'' ''10.42.46.2'',
      mkMachineConfig ''45045'' ''10.42.46.3'',
      mkMachineConfig ''45044'' ''10.42.46.4'',
      mkMachineConfig ''45047'' ''10.42.46.5'']"

definition globalConfig :: global_config where
  "globalConfig =
     \<lparr>readInterval = 2000, reconnectDelay = 5000, connectionTimeout = 5000, maxRetries = 5,
      resetSchedule = \<lparr>hour = 16, minute = 24, timezone = ''Asia/Jakarta''\<rparr>\<rparr>"

text \<open>
  One entry of \<^verbatim>\<open>this.machines\<close>. The \<^verbatim>\<open>service\<close> field is a
  \<^verbatim>\<open>ModbusService\<close>, whose class is not part of the sources at hand: what it answers
  is a parameter of the model (\<open>attempt_world\<close> below).
\<close>

record machine =
  config :: machine_config
  lastResetAttempt :: "moment option"
  resetRetryCount :: nat
  resetStatus :: bool

text \<open>
  A cron expression of the six-field form \<^verbatim>\<open>*/1 <minutes> <hours> * * *\<close>: the seconds
  field is every second and the three day fields are unrestricted, so the expression is its
  list of minute ranges and its list of hours.
\<close>

record cron_schedule =
  cronMinutes :: "(int \<times> int) list"
  cronHours :: "int list"

record service =
  machines :: "(machineCode \<times> machine) list"
  lastResetDate :: "moment option"
  resetHour :: int
  resetMinute :: int
  timezoneOf :: string
  scheduler :: "cron_schedule option"
  preCheckScheduler :: "cron_schedule option"
  resetInProgress :: bool

subsection \<open>Effects and the outside world\<close>

text \<open>
  Every call to the device gateway, every \<^verbatim>\<open>setTimeout\<close> delay and every log line is
  recorded, in program order, in a trace. A gateway call is recorded with what it came
  back with. A log line is its level, its fixed text with the interpolated machine code,
  and the interpolated numbers.
\<close>

datatype level = Info | Error | Debug | Warn

datatype read_reply = Rejects | Absent | NoData | Registers "int list"

datatype effect =
    Connect machineCode bool
  | Disconnect machineCode bool
  | ReadData machineCode read_reply
  | WriteRegister machineCode int int bool
  | Sleep nat
  | Log level string "int list"

text \<open>
  What the outside world does during one run of the body of \<^verbatim>\<open>resetCounter\<close>: the
  clock reading of line 125, the gateway's \<^verbatim>\<open>isConnected\<close>, and the outcome of each
  gateway call should it be made. For \<^verbatim>\<open>readData\<close>, \<open>Rejects\<close> is a rejected
  promise, \<open>Absent\<close> a falsy result, \<open>NoData\<close> a result whose \<^verbatim>\<open>data\<close> field is
  falsy, and \<open>Registers xs\<close> a result whose \<^verbatim>\<open>data\<close> field is the array \<open>xs\<close>.
\<close>

record attempt_world =
  clockNow :: moment
  isConnected :: bool
  connectOk :: bool
  readReply :: read_reply
  writeOk :: bool
  verifyReply :: read_reply

datatype error =
    MachineNotFound machineCode
  | ConnectionError
  | ReadError
  | InvalidData
  | WriteError
  | VerificationFailed
  | InvalidCronExpression

section \<open>The reset worker\<close>

text \<open>
  The \<^verbatim>\<open>try\<close> block of \<^verbatim>\<open>resetCounter\<close> (lines 127 to 160): \<open>Inl\<close> is the error
  it throws, \<open>Inr\<close> the machine entry as the block leaves it when it returns
  \<^verbatim>\<open>true\<close>.
\<close>

definition tryReset ::
  "machineCode \<Rightarrow> machine \<Rightarrow> attempt_world \<Rightarrow> (error + machine) \<times> effect list" where
  "tryReset code m w =
     (let now = clockNow w;
          t1 = (if \<not> isConnected w
                then [Log Info (''Reconnecting to PLC '' @ code @ '' before reset...'') [],
                      Connect code (connectOk w)]
                else []);
          t2 = t1 @ (if \<not> isConnected w then [Sleep 1000] else [])
                  @ [ReadData code (readReply w)]
      in if \<not> isConnected w \<and> \<not> connectOk w then (Inl ConnectionError, t1)
         else
           (case readReply w of
              Rejects \<Rightarrow> (Inl ReadError, t2)
            | Absent \<Rightarrow> (Inl InvalidData, t2)
            | NoData \<Rightarrow> (Inl InvalidData, t2)
            | Registers xs \<Rightarrow>
                if length xs < 3 then (Inl InvalidData, t2)
                else
                  (let currentCounter = xs ! 2;
                       t3 = t2 @ [Log Info (''Current counter value for machine '' @ code @ '': '')
                                    [currentCounter],
                                  WriteRegister code (counterAddress (registers (config m))) 0
                                    (writeOk w)];
                       t4 = t3 @ [Sleep 1000, ReadData code (verifyReply w)]
                   in if \<not> writeOk w then (Inl WriteError, t3)
                      else
                        (case verifyReply w of
                           Rejects \<Rightarrow> (Inl ReadError, t4)
                         | Absent \<Rightarrow> (Inl VerificationFailed, t4)
                         | NoData \<Rightarrow> (Inl VerificationFailed, t4)
                         | Registers ys \<Rightarrow>
                             if \<not> (2 < length ys \<and> ys ! 2 = 0)
                             then (Inl VerificationFailed, t4)
                             else
                               (Inr (m\<lparr>lastResetAttempt := Some now,
                                       resetRetryCount := 0,
                                       resetStatus := True\<rparr>),
                                t4 @ [Log Info (''Successfully reset counter for machine ''
                                                 @ code @ '' from .. to 0'')
                                        [currentCounter]])))))"

text \<open>The log lines of the \<^verbatim>\<open>catch\<close> block of \<^verbatim>\<open>resetCounter\<close> (lines 163 to 179).\<close>

definition attemptFailedLog :: "machineCode \<Rightarrow> nat \<Rightarrow> effect" where
  "attemptFailedLog code n =
     Log Error (''Error resetting counter for machine '' @ code @ '' (Attempt ..):'') [int n]"

definition retryScheduledLog :: "global_config \<Rightarrow> machineCode \<Rightarrow> effect" where
  "retryScheduledLog cfg code =
     Log Info (''Scheduling retry for machine '' @ code @ '' in ..ms'') [int (reconnectDelay cfg)]"

definition retryFailedLog :: "machineCode \<Rightarrow> effect" where
  "retryFailedLog code = Log Error (''Retry failed for machine '' @ code @ '':'') []"

definition maxRetriesLog :: "machineCode \<Rightarrow> effect" where
  "maxRetriesLog code =
     Log Error (''Max retry attempts reached for resetting machine '' @ code) []"

text \<open>
  \<^verbatim>\<open>resetCounter\<close> (lines 119 to 185). The argument \<open>ws\<close> gives the world of each run
  of the body, \<open>k\<close> is the index of this run; the retry scheduled by \<^verbatim>\<open>setTimeout\<close>
  is the recursive call at \<open>k + 1\<close>, after \<open>Sleep (reconnectDelay cfg)\<close>. The result
  is what the returned promise settles to (\<open>Inl\<close>: rejected), the machine table, and the
  trace. A retry that rejects is caught by the timer callback and resolved to
  \<^verbatim>\<open>false\<close>.
\<close>

function resetCounter ::
  "global_config \<Rightarrow> (nat \<Rightarrow> attempt_world) \<Rightarrow> nat \<Rightarrow> machineCode \<Rightarrow>
   (machineCode \<times> machine) list \<Rightarrow>
   (error + bool) \<times> (machineCode \<times> machine) list \<times> effect list" where
  "resetCounter cfg ws k code ms =
     (case map_of ms code of
        None \<Rightarrow> (Inl (MachineNotFound code), ms, [])
      | Some m \<Rightarrow>
          (case tryReset code m (ws k) of
             (Inr m', tr) \<Rightarrow> (Inr True, AList.update code m' ms, tr)
           | (Inl e, tr) \<Rightarrow>
               let n = resetRetryCount m + 1;
                   ms1 = AList.update code (m\<lparr>resetRetryCount := n\<rparr>) ms;
                   tr1 = tr @ [attemptFailedLog code n]
               in if n < maxRetries cfg
                  then
                    (case resetCounter cfg ws (k + 1) code ms1 of
                       (Inr result, ms2, tr2) \<Rightarrow>
                         (Inr result, ms2,
                          tr1 @ [retryScheduledLog cfg code, Sleep (reconnectDelay cfg)] @ tr2)
                     | (Inl retryError, ms2, tr2) \<Rightarrow>
                         (Inr False, ms2,
                          tr1 @ [retryScheduledLog cfg code, Sleep (reconnectDelay cfg)] @ tr2
                              @ [retryFailedLog code]))
                  else
                    (Inr False,
                     AList.update code (m\<lparr>resetRetryCount := 0, resetStatus := False\<rparr>) ms1,
                     tr1 @ [maxRetriesLog code])))"
  by pat_completeness auto
termination
  by (relation "measure (\<lambda>(cfg, ws, k, code, ms).
        maxRetries cfg - (case map_of ms code of None \<Rightarrow> 0 | Some m \<Rightarrow> resetRetryCount m))")
     (auto simp: update_conv')

declare resetCounter.simps [simp del]

subsection \<open>Construction\<close>

text \<open>
  \<^verbatim>\<open>initializeMachines\<close>: \<^verbatim>\<open>Map.set\<close> keeps the position of a key that is
  already there and appends a new one, as \<open>AList.update\<close> does.
\<close>

definition initializeMachines :: "machine_config list \<Rightarrow> (machineCode \<times> machine) list" where
  "initializeMachines cfgs =
     foldl (\<lambda>ms c. AList.update (machineCode c)
                      \<lparr>config = c, lastResetAttempt = None, resetRetryCount = 0,
                       resetStatus = False\<rparr> ms)
           [] cfgs"

definition newPLCResetService :: "global_config \<Rightarrow> machine_config list \<Rightarrow> service" where
  "newPLCResetService cfg cfgs =
     \<lparr>machines = initializeMachines cfgs,
      lastResetDate = None,
      resetHour = hour (resetSchedule cfg),
      resetMinute = minute (resetSchedule cfg),
      timezoneOf = timezone (resetSchedule cfg),
      scheduler = None,
      preCheckScheduler = None,
      resetInProgress = False\<rparr>"

subsection \<open>Promise.all\<close>

text \<open>
  \<^verbatim>\<open>Promise.all\<close> over settled promises: it rejects with a rejection if there is one
  (the first in list order stands for the first in time), and resolves to the list of
  values otherwise.
\<close>

fun promiseAll :: "(error + 'a) list \<Rightarrow> error + 'a list" where
  "promiseAll [] = Inr []"
| "promiseAll (Inl e # rs) = Inl e"
| "promiseAll (Inr x # rs) = (case promiseAll rs of Inl e \<Rightarrow> Inl e | Inr xs \<Rightarrow> Inr (x # xs))"

section \<open>Connecting the fleet\<close>

text \<open>
  What a device's gateway does when the service connects to it or disconnects from it.
\<close>

record link_world =
  linkConnected :: bool
  linkConnectOk :: bool
  linkDisconnectOk :: bool

text \<open>The \<^verbatim>\<open>try\<close> block of one connection task of \<^verbatim>\<open>connect\<close> (lines 104 to 108).\<close>

definition tryConnect :: "machineCode \<Rightarrow> link_world \<Rightarrow> (error + unit) \<times> effect list" where
  "tryConnect code lw =
     (if \<not> linkConnected lw
      then (if linkConnectOk lw
            then (Inr (), [Connect code True, Sleep 1000,
                           Log Info (''Connected to PLC '' @ code @ '' for reset service'') []])
            else (Inl ConnectionError, [Connect code False]))
      else (Inr (), []))"

text \<open>One connection task: the \<^verbatim>\<open>try\<close> block with its \<^verbatim>\<open>catch\<close> (lines 102 to 112).\<close>

definition connectionPromise :: "machineCode \<Rightarrow> link_world \<Rightarrow> (error + unit) \<times> effect list" where
  "connectionPromise code lw =
     (case tryConnect code lw of
        (Inr u, tr) \<Rightarrow> (Inr u, tr)
      | (Inl e, tr) \<Rightarrow>
          (Inr (), tr @ [Log Error (''Failed to connect to PLC '' @ code
                                    @ '' for reset service:'') []]))"

text \<open>
  \<^verbatim>\<open>connect\<close> (lines 98 to 117). The tasks run concurrently and each touches its own
  gateway only; the trace lists them machine by machine.
\<close>

definition connect ::
  "service \<Rightarrow> (machineCode \<Rightarrow> link_world) \<Rightarrow> (error + unit list) \<times> effect list" where
  "connect svc lws =
     (let connectionPromises = map (\<lambda>(code, m). connectionPromise code (lws code)) (machines svc)
      in (promiseAll (map fst connectionPromises), concat (map snd connectionPromises)))"

section \<open>The coordinator\<close>

definition isWithinResetWindow :: "service \<Rightarrow> moment \<Rightarrow> bool" where
  "isWithinResetWindow svc now =
     (let currentHour = hourOf now; currentMinute = minuteOf now
      in currentHour = resetHour svc \<and>
         currentMinute \<ge> resetMinute svc \<and>
         currentMinute < resetMinute svc + 15)"

text \<open>
  \<^verbatim>\<open>shouldPerformReset\<close> reads the clock twice, in \<^verbatim>\<open>isWithinResetWindow\<close> and
  for the day comparison: \<open>nowW\<close> and \<open>nowG\<close>.
\<close>

definition shouldPerformReset :: "service \<Rightarrow> moment \<Rightarrow> moment \<Rightarrow> bool \<times> effect list" where
  "shouldPerformReset svc nowW nowG =
     (if resetInProgress svc
      then (False, [Log Debug ''Reset operation already in progress'' []])
      else if \<not> isWithinResetWindow svc nowW then (False, [])
      else if (case lastResetDate svc of None \<Rightarrow> False | Some d \<Rightarrow> isSameDay d nowG)
      then (False, [Log Debug ''Already performed reset operations today'' []])
      else (True, []))"

text \<open>
  What the outside world does during one call of \<^verbatim>\<open>checkAndResetIfNeeded\<close>: the
  three clock readings (lines 188, 208 and 224) and, for each device, the worlds of its
  successive reset attempts.
\<close>

record tick_world =
  windowNow :: moment
  guardNow :: moment
  cycleNow :: moment
  devices :: "machineCode \<Rightarrow> nat \<Rightarrow> attempt_world"

text \<open>
  The fan-out of lines 227 to 231: one \<^verbatim>\<open>resetCounter\<close> per key. The chains run
  concurrently; each reads and writes its own entry of the table only, so the table they
  leave is the one obtained by running them one after the other.
\<close>

fun resetAll ::
  "global_config \<Rightarrow> (machineCode \<Rightarrow> nat \<Rightarrow> attempt_world) \<Rightarrow> machineCode list \<Rightarrow>
   (machineCode \<times> machine) list \<Rightarrow>
   (error + bool) list \<times> (machineCode \<times> machine) list \<times> effect list" where
  "resetAll cfg dws [] ms = ([], ms, [])"
| "resetAll cfg dws (code # codes) ms =
     (case resetCounter cfg (dws code) 0 code ms of
        (r, ms1, tr) \<Rightarrow>
          (case resetAll cfg dws codes ms1 of
             (rs, ms2, trs) \<Rightarrow> (r # rs, ms2, tr @ trs)))"

text \<open>
  \<^verbatim>\<open>checkAndResetIfNeeded\<close> in its two synchronous segments. The first runs from the
  call to the \<^verbatim>\<open>await\<close> of line 227: it returns \<open>None\<close> when the call returns at
  line 219, and \<open>Some now\<close> when a cycle has begun. The second runs from the settling of
  \<^verbatim>\<open>Promise.all\<close> to the end, \<^verbatim>\<open>catch\<close> and \<^verbatim>\<open>finally\<close> included.
\<close>

definition checkAndResetIfNeeded_sync ::
  "service \<Rightarrow> tick_world \<Rightarrow> moment option \<times> service \<times> effect list" where
  "checkAndResetIfNeeded_sync svc tw =
     (case shouldPerformReset svc (windowNow tw) (guardNow tw) of
        (False, lg) \<Rightarrow> (None, svc, lg)
      | (True, lg) \<Rightarrow>
          (let svc1 = svc\<lparr>resetInProgress := True\<rparr>;
               now = cycleNow tw
           in (Some now, svc1,
               lg @ [Log Info ''Initiating daily PLC counter reset at ..'' []])))"

definition checkAndResetIfNeeded_resume ::
  "service \<Rightarrow> moment \<Rightarrow> error + bool list \<Rightarrow> service \<times> effect list" where
  "checkAndResetIfNeeded_resume svc now settled =
     (case (case settled of
              Inr resetResults \<Rightarrow>
                (let allSuccessful = list_all (\<lambda>result. result = True) resetResults
                 in if allSuccessful
                    then (svc\<lparr>lastResetDate := Some now\<rparr>,
                          [Log Info ''Daily reset operation completed successfully for all machines'' []])
                    else (svc,
                          [Log Warn ''Daily reset operation completed with some failures'' []]))
            | Inl e \<Rightarrow> (svc, [Log Error ''Error during daily reset operation:'' []])) of
        (svc', lg) \<Rightarrow> (svc'\<lparr>resetInProgress := False\<rparr>, lg))"

definition checkAndResetIfNeeded ::
  "global_config \<Rightarrow> service \<Rightarrow> tick_world \<Rightarrow> service \<times> effect list" where
  "checkAndResetIfNeeded cfg svc tw =
     (case checkAndResetIfNeeded_sync svc tw of
        (None, svc', lg) \<Rightarrow> (svc', lg)
      | (Some now, svc1, lg) \<Rightarrow>
          (case resetAll cfg (devices tw) (map fst (machines svc1)) (machines svc1) of
             (rs, ms, tr) \<Rightarrow>
               (case checkAndResetIfNeeded_resume (svc1\<lparr>machines := ms\<rparr>) now (promiseAll rs) of
                  (svc2, lg2) \<Rightarrow> (svc2, lg @ tr @ lg2))))"

section \<open>The window scheduler\<close>

definition stopScheduler :: "service \<Rightarrow> service" where
  "stopScheduler svc =
     (let svc1 = (if scheduler svc \<noteq> None then svc\<lparr>scheduler := None\<rparr> else svc)
      in if preCheckScheduler svc1 \<noteq> None then svc1\<lparr>preCheckScheduler := None\<rparr> else svc1)"

text \<open>
  When a task fires. A cron expression matches a clock time when every field matches: the
  hour is one of the listed hours and the minute lies in one of the listed ranges; the
  task then fires at every second of that minute.
\<close>

definition cronFires :: "cron_schedule \<Rightarrow> int \<Rightarrow> int \<Rightarrow> bool" where
  "cronFires sch h m =
     (list_ex (\<lambda>h'. h' = h) (cronHours sch) \<and>
      list_ex (\<lambda>(lo, hi). lo \<le> m \<and> m \<le> hi) (cronMinutes sch))"

text \<open>
  The fields of an expression that \<^verbatim>\<open>node-cron\<close> accepts are within range: hours
  from 0 to 23, minute bounds from 0 to 59. \<^verbatim>\<open>cron.schedule\<close> validates the expression
  it is given and throws when a field is out of range.
\<close>

definition cronValid :: "cron_schedule \<Rightarrow> bool" where
  "cronValid sch =
     (list_all (\<lambda>h. 0 \<le> h \<and> h \<le> 23) (cronHours sch) \<and>
      list_all (\<lambda>(lo, hi). 0 \<le> lo \<and> lo \<le> hi \<and> hi \<le> 59) (cronMinutes sch))"

text \<open>
  \<^verbatim>\<open>startScheduler\<close> (lines 247 to 277). A task returned by \<^verbatim>\<open>cron.schedule\<close>
  is represented by the expression it was created from. The arithmetic is on integers, as
  in the source: \<^verbatim>\<open>this.resetMinute - 5\<close> is negative for a minute below 5. The result
  is the service as the call leaves it, the trace, and the error thrown, if any: when
  \<^verbatim>\<open>cron.schedule\<close> throws, the assignment of its line does not happen and the rest
  of the function is not run.
\<close>

definition startScheduler :: "service \<Rightarrow> service \<times> effect list \<times> error option" where
  "startScheduler svc =
     (let svc0 = (if scheduler svc \<noteq> None \<or> preCheckScheduler svc \<noteq> None
                  then stopScheduler svc else svc);
          cronSchedule = \<lparr>cronMinutes = [(resetMinute svc0, resetMinute svc0 + 14)],
                          cronHours = [resetHour svc0]\<rparr>;
          lg = [Log Info (''Reset service scheduled for ..:.. '' @ timezoneOf svc0)
                  [resetHour svc0, resetMinute svc0],
                Log Info ''Cron schedule: ..'' []]
      in if \<not> cronValid cronSchedule then (svc0, lg, Some InvalidCronExpression)
         else
           (let svc1 = svc0\<lparr>scheduler := Some cronSchedule\<rparr>;
                preCheckMinute = (if resetMinute svc1 = 0 then 55 else resetMinute svc1 - 5);
                preCheckHour = (if resetMinute svc1 = 0
                                then (if resetHour svc1 = 0 then 23 else resetHour svc1 - 1)
                                else resetHour svc1);
                preCheckSchedule =
                  \<lparr>cronMinutes = [(preCheckMinute, 59), (0, resetMinute svc1 + 19)],
                   cronHours = [preCheckHour, resetHour svc1]\<rparr>
            in if \<not> cronValid preCheckSchedule then (svc1, lg, Some InvalidCronExpression)
               else
                 (svc1\<lparr>preCheckScheduler := Some preCheckSchedule\<rparr>,
                  lg @ [Log Info ''PLC reset scheduler started with enhanced monitoring'' []],
                  None)))"

section \<open>Process lifecycle\<close>

text \<open>\<^verbatim>\<open>stop\<close> (lines 291 to 304): one disconnection per connected machine.\<close>

definition disconnectOne :: "machineCode \<Rightarrow> link_world \<Rightarrow> effect list" where
  "disconnectOne code lw =
     (if linkConnected lw
      then (if linkDisconnectOk lw
            then [Disconnect code True, Log Info (''Disconnected from PLC '' @ code) []]
            else [Disconnect code False,
                  Log Error (''Error disconnecting from PLC '' @ code @ '':'') []])
      else [])"

definition stop :: "service \<Rightarrow> (machineCode \<Rightarrow> link_world) \<Rightarrow> service \<times> effect list" where
  "stop svc lws =
     (stopScheduler svc,
      concat (map (\<lambda>(code, m). disconnectOne code (lws code)) (machines svc)))"

text \<open>
  \<^verbatim>\<open>ResetServiceManager\<close> of \<^verbatim>\<open>scripts/reset-service.js\<close>: \<^verbatim>\<open>cleanup\<close>
  and \<^verbatim>\<open>start\<close>. \<open>Exit n\<close> is \<^verbatim>\<open>process.exit(n)\<close>, \<open>Running\<close> the normal
  return of \<^verbatim>\<open>start\<close>. An error thrown by \<^verbatim>\<open>startScheduler\<close> is caught like a
  rejection of \<^verbatim>\<open>connect\<close>: error line, \<^verbatim>\<open>cleanup\<close>, exit code 1.
\<close>

datatype lifecycle = Running | Exit nat

definition cleanup :: "service \<Rightarrow> (machineCode \<Rightarrow> link_world) \<Rightarrow> service \<times> effect list" where
  "cleanup svc lws =
     (case stop svc lws of
        (svc', tr) \<Rightarrow> (svc', tr @ [Log Info ''Reset Service cleanup completed'' []]))"

definition start ::
  "service \<Rightarrow> (machineCode \<Rightarrow> link_world) \<Rightarrow> (machineCode \<Rightarrow> link_world) \<Rightarrow>
   lifecycle \<times> service \<times> effect list" where
  "start svc lws lws' =
     (case connect svc lws of
        (Inr u, tr) \<Rightarrow>
          (case startScheduler svc of
             (svc1, tr1, None) \<Rightarrow>
               (Running, svc1,
                [Log Info ''Initializing Reset Service...'' []] @ tr
                @ [Log Info ''Starting reset scheduler...'' []] @ tr1
                @ [Log Info ''Reset Service initialized successfully'' []])
           | (svc1, tr1, Some e) \<Rightarrow>
               (case cleanup svc1 lws' of
                  (svc2, tr2) \<Rightarrow>
                    (Exit 1, svc2,
                     [Log Info ''Initializing Reset Service...'' []] @ tr
                     @ [Log Info ''Starting reset scheduler...'' []] @ tr1
                     @ [Log Error ''Reset Service initialization error:'' []] @ tr2)))
      | (Inl e, tr) \<Rightarrow>
          (case cleanup svc lws' of
             (svc1, tr1) \<Rightarrow>
               (Exit 1, svc1,
                [Log Info ''Initializing Reset Service...'' []] @ tr
                @ [Log Error ''Reset Service initialization error:'' []] @ tr1)))"

section \<open>Ticks arriving while a cycle is in flight\<close>

text \<open>
  The event loop runs one synchronous segment at a time. A state of the running service
  is the service object together with the cycles that have begun and whose
  \<^verbatim>\<open>Promise.all\<close> has not settled yet, each with the \<^verbatim>\<open>now\<close> it captured. A step
  is one of: a timer tick, which runs the first segment of \<^verbatim>\<open>checkAndResetIfNeeded\<close>;
  a reset worker of a cycle in flight changing the machine table; the settling of a cycle
  in flight, which runs the second segment.
\<close>

record system =
  svcOf :: service
  inFlight :: "moment list"

definition tickStep :: "system \<Rightarrow> tick_world \<Rightarrow> system" where
  "tickStep s tw =
     (case checkAndResetIfNeeded_sync (svcOf s) tw of
        (None, svc', lg) \<Rightarrow> s\<lparr>svcOf := svc'\<rparr>
      | (Some now, svc', lg) \<Rightarrow> \<lparr>svcOf = svc', inFlight = now # inFlight s\<rparr>)"

inductive step :: "system \<Rightarrow> system \<Rightarrow> bool" where
  tick: "step s (tickStep s tw)"
| worker: "inFlight s \<noteq> [] \<Longrightarrow> step s (s\<lparr>svcOf := (svcOf s)\<lparr>machines := ms\<rparr>\<rparr>)"
| settle: "now \<in> set (inFlight s) \<Longrightarrow>
           step s \<lparr>svcOf = fst (checkAndResetIfNeeded_resume (svcOf s) now settled),
                   inFlight = remove1 now (inFlight s)\<rparr>"

inductive reachable :: "system \<Rightarrow> bool" where
  reach_init: "reachable \<lparr>svcOf = newPLCResetService cfg cfgs, inFlight = []\<rparr>"
| reach_step: "reachable s \<Longrightarrow> step s s' \<Longrightarrow> reachable s'"

section \<open>Observations on traces and schedules\<close>



text \<open>Whether the pre-check task of a service fires at clock time \<open>h:m\<close>.\<close>

definition preCheckFires :: "service \<Rightarrow> int \<Rightarrow> int \<Rightarrow> bool" where
  "preCheckFires svc h m =
     (case preCheckScheduler svc of None \<Rightarrow> False | Some sch \<Rightarrow> cronFires sch h m)"

text \<open>
  The pre-check window as the specification words it, for a reset time \<open>H:M\<close>: the
  clock minutes from 5 minutes before the start of the primary window up to its end, that
  is the 20 minutes starting at \<open>H:M - 5\<close>, counted around midnight.
\<close>

definition spec_preCheckWindow :: "int \<Rightarrow> int \<Rightarrow> int \<Rightarrow> int \<Rightarrow> bool" where
  "spec_preCheckWindow H M h m = ((h * 60 + m - (H * 60 + M - 5)) mod 1440 < 20)"

text \<open>
  The window the code's comment announces (\<^verbatim>\<open>5 minutes before and after\<close>): from 5
  minutes before the start of the primary window through 5 minutes after its end, the 25
  minutes starting at \<open>H:M - 5\<close>.
\<close>

definition extendedWindow :: "int \<Rightarrow> int \<Rightarrow> int \<Rightarrow> int \<Rightarrow> bool" where
  "extendedWindow H M h m = ((h * 60 + m - (H * 60 + M - 5)) mod 1440 < 25)"

subsection \<open>Concrete inputs\<close>

text \<open>
  The service as the shipped configuration builds it, a clock reading at 16:25, and two
  devices: one whose reads are always rejected and one that reconnects and resets.
\<close>

definition configuredService :: service where
  "configuredService = newPLCResetService globalConfig machinesConfig"

definition at1625 :: moment where
  "at1625 = \<lparr>dayOf = 20395, hourOf = 16, minuteOf = 25\<rparr>"

definition rejectingDevice :: attempt_world where
  "rejectingDevice =
     \<lparr>clockNow = at1625, isConnected = True, connectOk = True, readReply = Rejects,
      writeOk = True, verifyReply = Rejects\<rparr>"

definition healthyDevice :: attempt_world where
  "healthyDevice =
     \<lparr>clockNow = at1625, isConnected = False, connectOk = True,
      readReply = Registers [7, 0, 1234], writeOk = True, verifyReply = Registers [7, 0, 0]\<rparr>"

definition alwaysRejecting :: "nat \<Rightarrow> attempt_world" where
  "alwaysRejecting k = rejectingDevice"

definition alwaysHealthy :: "nat \<Rightarrow> attempt_world" where
  "alwaysHealthy k = healthyDevice"

definition at1700 :: moment where
  "at1700 = \<lparr>dayOf = 20395, hourOf = 17, minuteOf = 0\<rparr>"

definition healthyFleet :: "machineCode \<Rightarrow> nat \<Rightarrow> attempt_world" where
  "healthyFleet c = alwaysHealthy"

definition healthyTick :: tick_world where
  "healthyTick =
     \<lparr>windowNow = at1625, guardNow = at1625, cycleNow = at1625, devices = healthyFleet\<rparr>"

definition lateTick :: tick_world where
  "lateTick =
     \<lparr>windowNow = at1700, guardNow = at1700, cycleNow = at1700, devices = healthyFleet\<rparr>"

definition oneFailingFleet :: "machineCode \<Rightarrow> nat \<Rightarrow> attempt_world" where
  "oneFailingFleet c = (if c = ''45047'' then alwaysRejecting else alwaysHealthy)"

definition oneFailingTick :: tick_world where
  "oneFailingTick =
     \<lparr>windowNow = at1625, guardNow = at1625, cycleNow = at1625, devices = oneFailingFleet\<rparr>"

definition unreachableFleet :: "machineCode \<Rightarrow> link_world" where
  "unreachableFleet c =
     \<lparr>linkConnected = False, linkConnectOk = False, linkDisconnectOk = True\<rparr>"

definition freshMachine :: "machineCode \<Rightarrow> string \<Rightarrow> machine" where
  "freshMachine c h =
     \<lparr>config = mkMachineConfig c h, lastResetAttempt = None, resetRetryCount = 0,
      resetStatus = False\<rparr>"

section \<open>Properties of the reset worker\<close>

lemma machines_configuredService:
  "machines configuredService =
     [(''45051'', freshMachine ''45051'' ''10.42.46.1''),
      (''45050'', freshMachine ''45050'' ''10.42.46.2''),
      (''45045'', freshMachine ''45045'' ''10.42.46.3''),
      (''45044'', freshMachine ''45044'' ''10.42.46.4''),
      (''45047'', freshMachine ''45047'' ''10.42.46.5'')]"
  by (simp add: configuredService_def newPLCResetService_def initializeMachines_def
      machinesConfig_def freshMachine_def mkMachineConfig_def)



subsection \<open>One attempt\<close>



lemma tryReset_state:
  "fst (tryReset code m w) = Inr m' \<Longrightarrow>
   m' = m\<lparr>lastResetAttempt := Some (clockNow w), resetRetryCount := 0, resetStatus := True\<rparr>"
  by (auto simp: tryReset_def Let_def split: read_reply.splits if_splits)

lemma tryReset_config:
  "config m1 = config m2 \<Longrightarrow>
   snd (tryReset code m1 w) = snd (tryReset code m2 w) \<and>
   (fst (tryReset code m1 w) = Inl e \<longleftrightarrow> fst (tryReset code m2 w) = Inl e)"
  by (auto simp: tryReset_def Let_def split: read_reply.splits)

lemma tryReset_config_Inr:
  "config m1 = config m2 \<Longrightarrow> fst (tryReset code m1 w) = Inr x \<Longrightarrow>
   \<exists>y. fst (tryReset code m2 w) = Inr y"
  using tryReset_config [of m1 m2 code w]
  by (cases "fst (tryReset code m2 w)") auto



subsection \<open>The retry chain\<close>

text \<open>The four ways one run of \<^verbatim>\<open>resetCounter\<close> ends.\<close>

lemma resetCounter_not_found:
  "map_of ms code = None \<Longrightarrow>
   resetCounter cfg ws k code ms = (Inl (MachineNotFound code), ms, [])"
  by (subst resetCounter.simps) simp

lemma resetCounter_success:
  "map_of ms code = Some m \<Longrightarrow> tryReset code m (ws k) = (Inr m', tr) \<Longrightarrow>
   resetCounter cfg ws k code ms = (Inr True, AList.update code m' ms, tr)"
  by (subst resetCounter.simps) simp

lemma resetCounter_give_up:
  "map_of ms code = Some m \<Longrightarrow> tryReset code m (ws k) = (Inl e, tr) \<Longrightarrow>
   \<not> resetRetryCount m + 1 < maxRetries cfg \<Longrightarrow>
   resetCounter cfg ws k code ms =
     (Inr False, AList.update code (m\<lparr>resetRetryCount := 0, resetStatus := False\<rparr>) ms,
      tr @ [attemptFailedLog code (resetRetryCount m + 1), maxRetriesLog code])"
  by (subst resetCounter.simps) (simp add: update_last)

lemma resetCounter_retry:
  "map_of ms code = Some m \<Longrightarrow> tryReset code m (ws k) = (Inl e, tr) \<Longrightarrow>
   resetRetryCount m + 1 < maxRetries cfg \<Longrightarrow>
   resetCounter cfg ws (k + 1) code
     (AList.update code (m\<lparr>resetRetryCount := resetRetryCount m + 1\<rparr>) ms) = (r, ms2, tr2) \<Longrightarrow>
   resetCounter cfg ws k code ms =
     ((case r of Inl retryError \<Rightarrow> Inr False | Inr result \<Rightarrow> Inr result), ms2,
      tr @ [attemptFailedLog code (resetRetryCount m + 1), retryScheduledLog cfg code,
            Sleep (reconnectDelay cfg)] @ tr2
         @ (case r of Inl retryError \<Rightarrow> [retryFailedLog code] | Inr result \<Rightarrow> []))"
  by (subst resetCounter.simps) (simp split: sum.splits)

lemma resetCounter_resolves:
  "map_of ms code = Some m \<Longrightarrow> \<exists>b ms' tr. resetCounter cfg ws k code ms = (Inr b, ms', tr)"
  by (subst resetCounter.simps) (auto simp: Let_def split: prod.splits sum.splits)

text \<open>
  C6. For a machine code of the table, the promise returned by \<^verbatim>\<open>resetCounter\<close>
  resolves to a boolean: it never rejects, whatever the gateway does and however many
  attempts fail. For a code that is not in the table it rejects at once with
  \<open>MachineNotFound\<close>, with the table untouched and an empty trace: no gateway call,
  no delay, no retry.
\<close>

theorem resetCounter_never_raises_for_registered:
  "(map_of ms code \<noteq> None \<longrightarrow>
      (\<exists>b ms' tr. resetCounter cfg ws k code ms = (Inr b, ms', tr)))
   \<and> (map_of ms code = None \<longrightarrow>
      resetCounter cfg ws k code ms = (Inl (MachineNotFound code), ms, []))"
  using resetCounter_resolves [of ms code _ cfg ws k] resetCounter_not_found [of ms code cfg ws k]
  by auto

theorem resetCounter_never_raises_for_registered_witness:
  "map_of (machines configuredService) ''45047'' \<noteq> None
   \<and> (\<exists>b ms' tr. resetCounter globalConfig (\<lambda>k. rejectingDevice) 0 ''45047''
          (machines configuredService) = (Inr b, ms', tr))
   \<and> map_of (machines configuredService) ''99999'' = None
   \<and> resetCounter globalConfig (\<lambda>k. rejectingDevice) 0 ''99999'' (machines configuredService) =
       (Inl (MachineNotFound ''99999''), machines configuredService, [])"
proof -
  have present: "map_of (machines configuredService) ''45047'' \<noteq> None"
    by (simp add: machines_configuredService)
  have absent: "map_of (machines configuredService) ''99999'' = None"
    by (simp add: machines_configuredService)
  show ?thesis
    using present absent
      resetCounter_never_raises_for_registered
        [of "machines configuredService" "''45047''" globalConfig "\<lambda>k. rejectingDevice" 0]
      resetCounter_never_raises_for_registered
        [of "machines configuredService" "''99999''" globalConfig "\<lambda>k. rejectingDevice" 0]
    by blast
qed

text \<open>
  Every chain for a machine of the table ends with retry count 0, on success and on giving
  up alike, so a chain that begins when no other is running for the device begins at 0.
\<close>

lemma tryReset_keeps_config:
  "fst (tryReset code m w) = Inr m' \<Longrightarrow> config m' = config m \<and> resetRetryCount m' = 0"
  using tryReset_state [of code m w m'] by simp

lemma resetCounter_leaves_retryCount_zero:
  "map_of ms code = Some m \<Longrightarrow>
   \<exists>m'. map_of (fst (snd (resetCounter cfg ws k code ms))) code = Some m' \<and>
        resetRetryCount m' = 0 \<and> config m' = config m"
proof (induction cfg ws k code ms arbitrary: m rule: resetCounter.induct)
  case (1 cfg ws k code ms)
  obtain res t where t: "tryReset code m (ws k) = (res, t)" by (cases "tryReset code m (ws k)")
  show ?case
  proof (cases res)
    case (Inr m1)
    then have "config m1 = config m \<and> resetRetryCount m1 = 0"
      using tryReset_keeps_config [of code m "ws k" m1] t by simp
    then show ?thesis
      using resetCounter_success [where ws = ws and k = k, OF "1.prems" _, of m1 t cfg] t Inr
      by (simp add: update_conv')
  next
    case (Inl e)
    show ?thesis
    proof (cases "resetRetryCount m + 1 < maxRetries cfg")
      case False
      then show ?thesis
        using resetCounter_give_up [where ws = ws and k = k, OF "1.prems" _ False, of e t] t Inl
        by (simp add: update_conv')
    next
      case True
      let ?m1 = "m\<lparr>resetRetryCount := resetRetryCount m + 1\<rparr>"
      let ?ms1 = "AList.update code ?m1 ms"
      have pres: "map_of ?ms1 code = Some ?m1" by (simp add: update_conv')
      from "1.IH" [OF "1.prems" t [symmetric] Inl refl refl refl True pres]
      obtain m' where m': "map_of (fst (snd (resetCounter cfg ws (k + 1) code ?ms1))) code = Some m'"
        "resetRetryCount m' = 0" "config m' = config m" by auto
      have "fst (snd (resetCounter cfg ws k code ms)) =
            fst (snd (resetCounter cfg ws (k + 1) code ?ms1))"
        using resetCounter_retry [where ws = ws and k = k, OF "1.prems" _ True, of e t
            "fst (resetCounter cfg ws (k + 1) code ?ms1)"
            "fst (snd (resetCounter cfg ws (k + 1) code ?ms1))"
            "snd (snd (resetCounter cfg ws (k + 1) code ?ms1))"] t Inl
        by simp
      then show ?thesis using m' by auto
    qed
  qed
qed

lemma upt_0_Suc_shift: "[0..<Suc n] = 0 # map Suc [0..<n]"
  by (simp add: upt_conv_Cons map_Suc_upt del: upt_Suc)

text \<open>
  A chain whose remaining attempts all fail, from any retry count below the limit: the
  trace is, attempt by attempt, the attempt's own trace, the error line with the attempt
  number, and then either the scheduled retry with its delay or the final line.
\<close>

lemma resetCounter_exhaust:
  "maxRetries cfg - resetRetryCount m = Suc d \<Longrightarrow> map_of ms code = Some m \<Longrightarrow>
   (\<forall>j\<le>d. \<exists>e. fst (tryReset code m (ws (k + j))) = Inl e) \<Longrightarrow>
   resetCounter cfg ws k code ms =
     (Inr False,
      AList.update code (m\<lparr>resetRetryCount := 0, resetStatus := False\<rparr>) ms,
      concat (map (\<lambda>j. snd (tryReset code m (ws (k + j)))
                        @ [attemptFailedLog code (resetRetryCount m + j + 1)]
                        @ (if resetRetryCount m + j + 1 < maxRetries cfg
                           then [retryScheduledLog cfg code, Sleep (reconnectDelay cfg)]
                           else [maxRetriesLog code]))
                  [0..<Suc d]))"
proof (induction d arbitrary: k ms m)
  case 0
  from "0.prems"(3) obtain e where "fst (tryReset code m (ws k)) = Inl e" by auto
  then have t: "tryReset code m (ws k) = (Inl e, snd (tryReset code m (ws k)))"
    by (metis prod.collapse)
  from "0.prems"(1) have lim: "\<not> resetRetryCount m + 1 < maxRetries cfg" by arith
  show ?case
    using resetCounter_give_up [where ws = ws and k = k, OF "0.prems"(2) t lim] lim by simp
next
  case (Suc d)
  let ?m1 = "m\<lparr>resetRetryCount := resetRetryCount m + 1\<rparr>"
  let ?ms1 = "AList.update code ?m1 ms"
  from Suc.prems(3) obtain e where "fst (tryReset code m (ws k)) = Inl e" by force
  then have t: "tryReset code m (ws k) = (Inl e, snd (tryReset code m (ws k)))"
    by (metis prod.collapse)
  from Suc.prems(1) have lim: "resetRetryCount m + 1 < maxRetries cfg" by arith
  have a1: "maxRetries cfg - resetRetryCount ?m1 = Suc d" using Suc.prems(1) by simp
  have a2: "map_of ?ms1 code = Some ?m1" by (simp add: update_conv')
  have a3: "\<forall>j\<le>d. \<exists>e. fst (tryReset code ?m1 (ws (k + 1 + j))) = Inl e"
  proof (intro allI impI)
    fix j assume "j \<le> d"
    then obtain e' where "fst (tryReset code m (ws (k + Suc j))) = Inl e'"
      using Suc.prems(3) by (metis Suc_le_mono)
    then show "\<exists>e. fst (tryReset code ?m1 (ws (k + 1 + j))) = Inl e"
      using tryReset_config [of ?m1 m code "ws (k + Suc j)" e'] by auto
  qed
  have snd_eq: "\<And>w n. snd (tryReset code (m\<lparr>resetRetryCount := n\<rparr>) w) = snd (tryReset code m w)"
    using tryReset_config [of "m\<lparr>resetRetryCount := n\<rparr>" m code for n] by simp
  note ih = Suc.IH [OF a1 a2 a3]
  show ?case
    using resetCounter_retry [where ws = ws and k = k, OF Suc.prems(2) t lim ih] lim
    by (subst upt_0_Suc_shift) (simp add: update_last snd_eq comp_def del: upt_Suc)
qed

text \<open>
  C5. A device of the table with retry count 0, as every chain leaves it, whose attempts
  all fail (whichever step fails: reconnection, read, write or verification), under a
  limit \<open>maxRetries\<close> of at least 1:
  \<^verbatim>\<open>resetCounter\<close> resolves to \<^verbatim>\<open>false\<close> and leaves the entry with retry count 0
  and reset status false. Its trace is exactly \<open>maxRetries\<close> attempts, numbered 1 to
  \<open>maxRetries\<close> in their error lines; after each but the last comes the scheduled retry,
  a delay of \<open>reconnectDelay\<close>, and only then the next attempt; after the last comes the
  final error line and nothing else, so no further retry is scheduled.
\<close>

theorem resetCounter_exhausts_after_maxRetries:
  assumes "map_of ms code = Some m"
    and "resetRetryCount m = 0"
    and "0 < maxRetries cfg"
    and "\<forall>j<maxRetries cfg. \<exists>e. fst (tryReset code m (ws (k + j))) = Inl e"
  shows "resetCounter cfg ws k code ms =
     (Inr False,
      AList.update code (m\<lparr>resetRetryCount := 0, resetStatus := False\<rparr>) ms,
      concat (map (\<lambda>j. snd (tryReset code m (ws (k + j)))
                        @ [attemptFailedLog code (j + 1)]
                        @ (if j + 1 < maxRetries cfg
                           then [retryScheduledLog cfg code, Sleep (reconnectDelay cfg)]
                           else [maxRetriesLog code]))
                  [0..<maxRetries cfg]))
     \<and> map_of (AList.update code (m\<lparr>resetRetryCount := 0, resetStatus := False\<rparr>) ms) code =
         Some (m\<lparr>resetRetryCount := 0, resetStatus := False\<rparr>)"
proof -
  obtain d where d: "maxRetries cfg = Suc d" using assms(3) by (cases "maxRetries cfg") auto
  have a1: "maxRetries cfg - resetRetryCount m = Suc d" using d assms(2) by simp
  have a3: "\<forall>j\<le>d. \<exists>e. fst (tryReset code m (ws (k + j))) = Inl e"
    using assms(4) d by (simp add: less_Suc_eq_le)
  show ?thesis
    using resetCounter_exhaust [OF a1 assms(1) a3] assms(2) d
    by (simp add: update_conv' del: upt_Suc)
qed

theorem resetCounter_exhausts_after_maxRetries_witness:
  "map_of (machines configuredService) ''45047'' = Some (freshMachine ''45047'' ''10.42.46.5'')
   \<and> resetRetryCount (freshMachine ''45047'' ''10.42.46.5'') = 0
   \<and> 0 < maxRetries globalConfig
   \<and> fst (tryReset ''45047'' (freshMachine ''45047'' ''10.42.46.5'') rejectingDevice) = Inl ReadError
   \<and> resetCounter globalConfig (\<lambda>k. rejectingDevice) 0 ''45047'' (machines configuredService) =
       (Inr False,
        AList.update ''45047''
          ((freshMachine ''45047'' ''10.42.46.5'')\<lparr>resetRetryCount := 0, resetStatus := False\<rparr>)
          (machines configuredService),
        concat (map (\<lambda>j. [ReadData ''45047'' Rejects, attemptFailedLog ''45047'' (j + 1)]
                          @ (if j + 1 < 5
                             then [retryScheduledLog globalConfig ''45047'', Sleep 5000]
                             else [maxRetriesLog ''45047'']))
                    [0..<5]))"
proof -
  have h1: "map_of (machines configuredService) ''45047'' = Some (freshMachine ''45047'' ''10.42.46.5'')"
    by (simp add: machines_configuredService)
  have h2: "resetRetryCount (freshMachine ''45047'' ''10.42.46.5'') = 0"
    by (simp add: freshMachine_def)
  have h3: "0 < maxRetries globalConfig" by (simp add: globalConfig_def)
  have tr: "tryReset ''45047'' (freshMachine ''45047'' ''10.42.46.5'') rejectingDevice =
      (Inl ReadError, [ReadData ''45047'' Rejects])"
    by (simp add: tryReset_def rejectingDevice_def)
  have h4: "\<forall>j<maxRetries globalConfig.
      \<exists>e. fst (tryReset ''45047'' (freshMachine ''45047'' ''10.42.46.5'')
                ((\<lambda>k. rejectingDevice) (0 + j))) = Inl e"
    by (simp add: tr)
  have mr: "maxRetries globalConfig = 5" "reconnectDelay globalConfig = 5000"
    by (simp_all add: globalConfig_def)
  show ?thesis
    using h1 h2 h3 h4 resetCounter_exhausts_after_maxRetries [OF h1 h2 h3 h4]
    by (simp add: tr mr del: upt_Suc cong: if_cong)
qed

text \<open>
  Where \<open>lastResetAttempt\<close> stands when a chain has resolved: unchanged when the chain
  resolved to \<^verbatim>\<open>false\<close>; the clock reading of the attempt that succeeded when it
  resolved to \<^verbatim>\<open>true\<close>.
\<close>

lemma resetCounter_lastResetAttempt:
  "map_of ms code = Some m \<Longrightarrow> resetCounter cfg ws k code ms = (r, ms', tr) \<Longrightarrow>
   \<exists>m'. map_of ms' code = Some m' \<and>
     ((r = Inr False \<and> lastResetAttempt m' = lastResetAttempt m) \<or>
      (r = Inr True \<and>
       (\<exists>j\<ge>k. (\<forall>i. k \<le> i \<and> i < j \<longrightarrow> (\<exists>e. fst (tryReset code m (ws i)) = Inl e)) \<and>
              (\<exists>m1. fst (tryReset code m (ws j)) = Inr m1) \<and>
              lastResetAttempt m' = Some (clockNow (ws j)))))"
proof (induction cfg ws k code ms arbitrary: m r ms' tr rule: resetCounter.induct)
  case (1 cfg ws k code ms)
  obtain res t where t: "tryReset code m (ws k) = (res, t)" by (cases "tryReset code m (ws k)")
  show ?case
  proof (cases res)
    case (Inr m1)
    with t "1.prems" have eq: "r = Inr True" "ms' = AList.update code m1 ms"
      using resetCounter_success [where ws = ws and k = k, of ms code m m1 t cfg] by auto
    have "lastResetAttempt m1 = Some (clockNow (ws k))"
      using tryReset_state [of code m "ws k" m1] t Inr by simp
    moreover have "fst (tryReset code m (ws k)) = Inr m1" using t Inr by simp
    ultimately show ?thesis using eq by (auto simp: update_conv')
  next
    case (Inl e)
    let ?n = "resetRetryCount m + 1"
    let ?m1 = "m\<lparr>resetRetryCount := ?n\<rparr>"
    let ?ms1 = "AList.update code ?m1 ms"
    have fail_k: "fst (tryReset code m (ws k)) = Inl e" using t Inl by simp
    show ?thesis
    proof (cases "?n < maxRetries cfg")
      case False
      with t Inl "1.prems" have "r = Inr False"
        "ms' = AList.update code (m\<lparr>resetRetryCount := 0, resetStatus := False\<rparr>) ms"
        using resetCounter_give_up [where ws = ws and k = k, of ms code m e t cfg] by auto
      then show ?thesis by (auto simp: update_conv')
    next
      case True
      obtain r2 ms2 tr2 where rec: "resetCounter cfg ws (k + 1) code ?ms1 = (r2, ms2, tr2)"
        by (cases "resetCounter cfg ws (k + 1) code ?ms1") auto
      have pres: "map_of ?ms1 code = Some ?m1" by (simp add: update_conv')
      from "1.IH" [OF "1.prems"(1) t [symmetric] Inl refl refl refl True pres rec]
      obtain m' where m': "map_of ms2 code = Some m'"
        and dj: "(r2 = Inr False \<and> lastResetAttempt m' = lastResetAttempt ?m1) \<or>
          (r2 = Inr True \<and>
           (\<exists>j\<ge>k + 1. (\<forall>i. k + 1 \<le> i \<and> i < j \<longrightarrow>
                          (\<exists>e. fst (tryReset code ?m1 (ws i)) = Inl e)) \<and>
              (\<exists>m1. fst (tryReset code ?m1 (ws j)) = Inr m1) \<and>
              lastResetAttempt m' = Some (clockNow (ws j))))"
        by blast
      from resetCounter_retry [where ws = ws and k = k, OF "1.prems"(1) _ True rec, of e t]
        t Inl "1.prems"(2)
      have top: "r = (case r2 of Inl x \<Rightarrow> Inr False | Inr b \<Rightarrow> Inr b)" "ms' = ms2"
        by auto
      from dj show ?thesis
      proof
        assume "r2 = Inr False \<and> lastResetAttempt m' = lastResetAttempt ?m1"
        then show ?thesis using top m' by auto
      next
        assume a: "r2 = Inr True \<and>
           (\<exists>j\<ge>k + 1. (\<forall>i. k + 1 \<le> i \<and> i < j \<longrightarrow>
                          (\<exists>e. fst (tryReset code ?m1 (ws i)) = Inl e)) \<and>
              (\<exists>m1. fst (tryReset code ?m1 (ws j)) = Inr m1) \<and>
              lastResetAttempt m' = Some (clockNow (ws j)))"
        then obtain j where j: "k + 1 \<le> j"
          and fl: "\<forall>i. k + 1 \<le> i \<and> i < j \<longrightarrow> (\<exists>e. fst (tryReset code ?m1 (ws i)) = Inl e)"
          and ok: "\<exists>m1. fst (tryReset code ?m1 (ws j)) = Inr m1"
          and la: "lastResetAttempt m' = Some (clockNow (ws j))" by blast
        have fl': "\<forall>i. k \<le> i \<and> i < j \<longrightarrow> (\<exists>e. fst (tryReset code m (ws i)) = Inl e)"
        proof (intro allI impI)
          fix i assume i: "k \<le> i \<and> i < j"
          show "\<exists>e. fst (tryReset code m (ws i)) = Inl e"
          proof (cases "i = k")
            case True then show ?thesis using fail_k by auto
          next
            case False
            with i fl obtain e' where "fst (tryReset code ?m1 (ws i)) = Inl e'" by force
            then show ?thesis using tryReset_config [of ?m1 m code "ws i" e'] by auto
          qed
        qed
        have ok': "\<exists>m1. fst (tryReset code m (ws j)) = Inr m1"
          using ok tryReset_config_Inr [of ?m1 m code "ws j"] by auto
        have "k \<le> j" using j by simp
        with fl' ok' la a top m' show ?thesis by auto
      qed
    qed
  qed
qed

lemma rejecting_chain:
  "fst (resetCounter globalConfig alwaysRejecting 0 ''45047'' (machines configuredService)) =
     Inr False"
  "map_of (fst (snd (resetCounter globalConfig alwaysRejecting 0 ''45047''
                       (machines configuredService)))) ''45047'' =
     Some (freshMachine ''45047'' ''10.42.46.5'')"
  by (simp_all add: resetCounter.simps machines_configuredService tryReset_def
      alwaysRejecting_def rejectingDevice_def globalConfig_def freshMachine_def)

lemma healthy_chain:
  "fst (resetCounter globalConfig alwaysHealthy 0 ''45047'' (machines configuredService)) =
     Inr True"
  "map_of (fst (snd (resetCounter globalConfig alwaysHealthy 0 ''45047''
                       (machines configuredService)))) ''45047'' =
     Some ((freshMachine ''45047'' ''10.42.46.5'')
             \<lparr>lastResetAttempt := Some at1625, resetRetryCount := 0, resetStatus := True\<rparr>)"
  by (simp_all add: resetCounter.simps machines_configuredService tryReset_def
      alwaysHealthy_def healthyDevice_def globalConfig_def freshMachine_def)

text \<open>
  C9, as stated, fails: \<open>lastResetAttempt\<close> is assigned on the success path only
  (line 155). A device of the shipped fleet that has never been reset and whose five
  attempts, each begun at the clock reading \<open>at1625\<close>, are all rejected ends with
  \<open>lastResetAttempt\<close> still unset, not with \<open>Some at1625\<close>.
\<close>

theorem failed_attempts_leave_lastResetAttempt_unset:
  "fst (resetCounter globalConfig alwaysRejecting 0 ''45047'' (machines configuredService)) =
     Inr False
   \<and> clockNow (alwaysRejecting 4) = at1625
   \<and> map_option lastResetAttempt
        (map_of (fst (snd (resetCounter globalConfig alwaysRejecting 0 ''45047''
                             (machines configuredService)))) ''45047'') = Some None
   \<and> map_option lastResetAttempt
        (map_of (fst (snd (resetCounter globalConfig alwaysRejecting 0 ''45047''
                             (machines configuredService)))) ''45047'') \<noteq> Some (Some at1625)"
  by (simp add: rejecting_chain alwaysRejecting_def rejectingDevice_def freshMachine_def)

text \<open>
  C9, amended. When \<^verbatim>\<open>resetCounter\<close> has resolved for a device of the table, the
  device's \<open>lastResetAttempt\<close> is the clock reading taken at the start of the attempt
  that succeeded, if the chain resolved to \<^verbatim>\<open>true\<close> (every earlier attempt of the
  chain having failed); if the chain resolved to \<^verbatim>\<open>false\<close>, no attempt succeeded and
  \<open>lastResetAttempt\<close> is what it was before the chain. So the field holds the time of
  the most recent successful attempt; a failed attempt does not change it.
\<close>

theorem lastResetAttempt_set_only_on_success:
  assumes "map_of ms code = Some m"
    and "resetCounter cfg ws k code ms = (r, ms', tr)"
  shows "\<exists>m'. map_of ms' code = Some m' \<and>
     ((r = Inr False \<and> lastResetAttempt m' = lastResetAttempt m) \<or>
      (r = Inr True \<and>
       (\<exists>j\<ge>k. (\<forall>i. k \<le> i \<and> i < j \<longrightarrow> (\<exists>e. fst (tryReset code m (ws i)) = Inl e)) \<and>
              (\<exists>m1. fst (tryReset code m (ws j)) = Inr m1) \<and>
              lastResetAttempt m' = Some (clockNow (ws j)))))"
  using resetCounter_lastResetAttempt [OF assms] .

theorem lastResetAttempt_set_only_on_success_witness:
  "map_of (machines configuredService) ''45047'' = Some (freshMachine ''45047'' ''10.42.46.5'')
   \<and> fst (resetCounter globalConfig alwaysRejecting 0 ''45047'' (machines configuredService)) =
       Inr False
   \<and> (\<exists>m'. map_of (fst (snd (resetCounter globalConfig alwaysRejecting 0 ''45047''
                                (machines configuredService)))) ''45047'' = Some m' \<and>
             lastResetAttempt m' = lastResetAttempt (freshMachine ''45047'' ''10.42.46.5''))
   \<and> fst (resetCounter globalConfig alwaysHealthy 0 ''45047'' (machines configuredService)) =
       Inr True
   \<and> (\<exists>m'. map_of (fst (snd (resetCounter globalConfig alwaysHealthy 0 ''45047''
                                (machines configuredService)))) ''45047'' = Some m' \<and>
             (\<exists>j. lastResetAttempt m' = Some (clockNow (alwaysHealthy j))))"
proof -
  have h: "map_of (machines configuredService) ''45047'' = Some (freshMachine ''45047'' ''10.42.46.5'')"
    by (simp add: machines_configuredService)
  have r: "resetCounter globalConfig alwaysRejecting 0 ''45047'' (machines configuredService) =
      (Inr False,
       fst (snd (resetCounter globalConfig alwaysRejecting 0 ''45047'' (machines configuredService))),
       snd (snd (resetCounter globalConfig alwaysRejecting 0 ''45047'' (machines configuredService))))"
    using rejecting_chain(1) by (metis prod.collapse)
  have g: "resetCounter globalConfig alwaysHealthy 0 ''45047'' (machines configuredService) =
      (Inr True,
       fst (snd (resetCounter globalConfig alwaysHealthy 0 ''45047'' (machines configuredService))),
       snd (snd (resetCounter globalConfig alwaysHealthy 0 ''45047'' (machines configuredService))))"
    using healthy_chain(1) by (metis prod.collapse)
  show ?thesis
    using h rejecting_chain(1) healthy_chain(1)
      lastResetAttempt_set_only_on_success [OF h r]
      lastResetAttempt_set_only_on_success [OF h g]
    by auto
qed

section \<open>Properties of the coordinator\<close>

lemma promiseAll_all_true:
  "(\<exists>bs. promiseAll rs = Inr bs \<and> list_all (\<lambda>result. result = True) bs) \<longleftrightarrow>
   list_all (\<lambda>r. r = Inr True) rs"
  by (induction rs rule: promiseAll.induct) (auto split: sum.splits)

lemma resume_lastResetDate:
  "lastResetDate (fst (checkAndResetIfNeeded_resume svc now settled)) =
     (if (\<exists>bs. settled = Inr bs \<and> list_all (\<lambda>result. result = True) bs) then Some now
      else lastResetDate svc)"
  by (auto simp: checkAndResetIfNeeded_resume_def Let_def split: sum.splits)

lemma resume_fields:
  "resetInProgress (fst (checkAndResetIfNeeded_resume svc now settled)) = False"
  "resetHour (fst (checkAndResetIfNeeded_resume svc now settled)) = resetHour svc"
  "resetMinute (fst (checkAndResetIfNeeded_resume svc now settled)) = resetMinute svc"
  "machines (fst (checkAndResetIfNeeded_resume svc now settled)) = machines svc"
  by (auto simp: checkAndResetIfNeeded_resume_def Let_def split: sum.splits)

lemma sync_cases:
  "checkAndResetIfNeeded_sync svc tw =
     (if resetInProgress svc
      then (None, svc, [Log Debug ''Reset operation already in progress'' []])
      else if \<not> (hourOf (windowNow tw) = resetHour svc \<and>
                   resetMinute svc \<le> minuteOf (windowNow tw) \<and>
                   minuteOf (windowNow tw) < resetMinute svc + 15)
      then (None, svc, [])
      else if (\<exists>d. lastResetDate svc = Some d \<and> dayOf d = dayOf (guardNow tw))
      then (None, svc, [Log Debug ''Already performed reset operations today'' []])
      else (Some (cycleNow tw), svc\<lparr>resetInProgress := True\<rparr>,
            [Log Info ''Initiating daily PLC counter reset at ..'' []]))"
  by (auto simp: checkAndResetIfNeeded_sync_def shouldPerformReset_def isWithinResetWindow_def
      isSameDay_def Let_def split: option.splits)

lemma resetCounter_keys:
  "map fst (fst (snd (resetCounter cfg ws k code ms))) = map fst ms"
proof (induction cfg ws k code ms rule: resetCounter.induct)
  case (1 cfg ws k code ms)
  show ?case
  proof (cases "map_of ms code")
    case None
    then show ?thesis by (subst resetCounter.simps) simp
  next
    case (Some m)
    then have mem: "code \<in> set (map fst ms)" by (metis map_of_eq_None_iff option.distinct(1) set_map)
    obtain res t where t: "tryReset code m (ws k) = (res, t)" by (cases "tryReset code m (ws k)")
    show ?thesis
    proof (cases res)
      case (Inr m1)
      then show ?thesis using Some t mem
        by (subst resetCounter.simps) (simp add: update_keys)
    next
      case (Inl e)
      show ?thesis
      proof (cases "resetRetryCount m + 1 < maxRetries cfg")
        case False
        then show ?thesis using Some t Inl mem
          by (subst resetCounter.simps) (simp add: update_keys)
      next
        case True
        from "1.IH" [OF Some t [symmetric] Inl refl refl refl True]
        have "map fst (fst (snd (resetCounter cfg ws (k + 1) code
                (AList.update code (m\<lparr>resetRetryCount := resetRetryCount m + 1\<rparr>) ms)))) = map fst ms"
          using mem by (simp add: update_keys)
        then show ?thesis using Some t Inl True
          by (subst resetCounter.simps) (simp add: Let_def split_beta split: sum.splits)
      qed
    qed
  qed
qed

lemma resetAll_keys:
  "map fst (fst (snd (resetAll cfg dws codes ms))) = map fst ms"
proof (induction codes arbitrary: ms)
  case Nil
  then show ?case by simp
next
  case (Cons code codes)
  show ?case
    using Cons.IH [of "fst (snd (resetCounter cfg (dws code) 0 code ms))"]
      resetCounter_keys [of cfg "dws code" 0 code ms]
    by (simp add: split_beta)
qed

lemma resetAll_length:
  "length (fst (resetAll cfg dws codes ms)) = length codes"
  by (induction codes arbitrary: ms) (auto simp: split_beta)

lemma configuredService_fields:
  "resetInProgress configuredService = False"
  "lastResetDate configuredService = None"
  "resetHour configuredService = 16"
  "resetMinute configuredService = 24"
  "scheduler configuredService = None"
  "preCheckScheduler configuredService = None"
  by (simp_all add: configuredService_def newPLCResetService_def globalConfig_def)

subsection \<open>A cycle is one chain per machine\<close>

text \<open>
  A chain reads and writes the entry of its own code only: the other entries are left as
  they were, and its outcome, its trace and the entry it leaves depend on no other entry.
  Hence the fan-out over distinct codes yields, for each code, what \<^verbatim>\<open>resetCounter\<close>
  yields for that code on the table the fan-out started from.
\<close>

lemma resetCounter_other_entries:
  "c \<noteq> code \<Longrightarrow> map_of (fst (snd (resetCounter cfg ws k code ms))) c = map_of ms c"
proof (induction cfg ws k code ms rule: resetCounter.induct)
  case (1 cfg ws k code ms)
  show ?case
  proof (cases "map_of ms code")
    case None
    then show ?thesis by (simp add: resetCounter_not_found)
  next
    case (Some m)
    obtain res t where t: "tryReset code m (ws k) = (res, t)" by (cases "tryReset code m (ws k)")
    show ?thesis
    proof (cases res)
      case (Inr m1)
      then show ?thesis
        using resetCounter_success [where ws = ws and k = k, OF Some, of m1 t cfg] t "1.prems"
        by (simp add: update_conv')
    next
      case (Inl e)
      show ?thesis
      proof (cases "resetRetryCount m + 1 < maxRetries cfg")
        case False
        then show ?thesis
          using resetCounter_give_up [where ws = ws and k = k, OF Some _ False, of e t] t Inl "1.prems"
          by (simp add: update_conv')
      next
        case True
        let ?ms1 = "AList.update code (m\<lparr>resetRetryCount := resetRetryCount m + 1\<rparr>) ms"
        have ih: "map_of (fst (snd (resetCounter cfg ws (k + 1) code ?ms1))) c = map_of ?ms1 c"
          using "1.IH" [OF Some t [symmetric] Inl refl refl refl True "1.prems"] .
        have "fst (snd (resetCounter cfg ws k code ms)) =
              fst (snd (resetCounter cfg ws (k + 1) code ?ms1))"
          using resetCounter_retry [where ws = ws and k = k, OF Some _ True, of e t
              "fst (resetCounter cfg ws (k + 1) code ?ms1)"
              "fst (snd (resetCounter cfg ws (k + 1) code ?ms1))"
              "snd (snd (resetCounter cfg ws (k + 1) code ?ms1))"] t Inl
          by simp
        then show ?thesis using ih "1.prems" by (simp add: update_conv')
      qed
    qed
  qed
qed

lemma resetCounter_depends_on_own_entry:
  "map_of ms1 code = map_of ms2 code \<Longrightarrow>
   fst (resetCounter cfg ws k code ms1) = fst (resetCounter cfg ws k code ms2) \<and>
   snd (snd (resetCounter cfg ws k code ms1)) = snd (snd (resetCounter cfg ws k code ms2)) \<and>
   map_of (fst (snd (resetCounter cfg ws k code ms1))) code =
   map_of (fst (snd (resetCounter cfg ws k code ms2))) code"
proof (induction cfg ws k code ms1 arbitrary: ms2 rule: resetCounter.induct)
  case (1 cfg ws k code ms1)
  show ?case
  proof (cases "map_of ms1 code")
    case None
    then have "map_of ms2 code = None" using "1.prems" by simp
    then show ?thesis using None by (simp add: resetCounter_not_found)
  next
    case (Some m)
    then have Some2: "map_of ms2 code = Some m" using "1.prems" by simp
    obtain res t where t: "tryReset code m (ws k) = (res, t)" by (cases "tryReset code m (ws k)")
    show ?thesis
    proof (cases res)
      case (Inr m1)
      then show ?thesis
        using resetCounter_success [where ws = ws and k = k, OF Some, of m1 t cfg]
          resetCounter_success [where ws = ws and k = k, OF Some2, of m1 t cfg] t
        by (simp add: update_conv')
    next
      case (Inl e)
      show ?thesis
      proof (cases "resetRetryCount m + 1 < maxRetries cfg")
        case False
        then show ?thesis
          using resetCounter_give_up [where ws = ws and k = k, OF Some _ False, of e t]
            resetCounter_give_up [where ws = ws and k = k, OF Some2 _ False, of e t] t Inl
          by (simp add: update_conv')
      next
        case True
        let ?m1 = "m\<lparr>resetRetryCount := resetRetryCount m + 1\<rparr>"
        let ?a = "resetCounter cfg ws (k + 1) code (AList.update code ?m1 ms1)"
        let ?b = "resetCounter cfg ws (k + 1) code (AList.update code ?m1 ms2)"
        have eq: "map_of (AList.update code ?m1 ms1) code = map_of (AList.update code ?m1 ms2) code"
          by (simp add: update_conv')
        note ih = "1.IH" [OF Some t [symmetric] Inl refl refl refl True eq]
        have ta: "resetCounter cfg ws k code ms1 =
            ((case fst ?a of Inl x \<Rightarrow> Inr False | Inr b \<Rightarrow> Inr b), fst (snd ?a),
             t @ [attemptFailedLog code (resetRetryCount m + 1), retryScheduledLog cfg code,
                  Sleep (reconnectDelay cfg)] @ snd (snd ?a)
               @ (case fst ?a of Inl x \<Rightarrow> [retryFailedLog code] | Inr b \<Rightarrow> []))"
          using resetCounter_retry [where ws = ws and k = k, OF Some _ True, of e t
              "fst ?a" "fst (snd ?a)" "snd (snd ?a)"] t Inl by simp
        have tb: "resetCounter cfg ws k code ms2 =
            ((case fst ?b of Inl x \<Rightarrow> Inr False | Inr b \<Rightarrow> Inr b), fst (snd ?b),
             t @ [attemptFailedLog code (resetRetryCount m + 1), retryScheduledLog cfg code,
                  Sleep (reconnectDelay cfg)] @ snd (snd ?b)
               @ (case fst ?b of Inl x \<Rightarrow> [retryFailedLog code] | Inr b \<Rightarrow> []))"
          using resetCounter_retry [where ws = ws and k = k, OF Some2 _ True, of e t
              "fst ?b" "fst (snd ?b)" "snd (snd ?b)"] t Inl by simp
        show ?thesis using ih by (simp add: ta tb)
      qed
    qed
  qed
qed

lemma resetAll_by_chains:
  "distinct codes \<Longrightarrow>
   fst (resetAll cfg dws codes ms) = map (\<lambda>c. fst (resetCounter cfg (dws c) 0 c ms)) codes \<and>
   snd (snd (resetAll cfg dws codes ms)) =
     concat (map (\<lambda>c. snd (snd (resetCounter cfg (dws c) 0 c ms))) codes) \<and>
   (\<forall>c. map_of (fst (snd (resetAll cfg dws codes ms))) c =
        (if c \<in> set codes then map_of (fst (snd (resetCounter cfg (dws c) 0 c ms))) c
         else map_of ms c))"
proof (induction codes arbitrary: ms)
  case Nil
  then show ?case by simp
next
  case (Cons code codes)
  let ?r = "resetCounter cfg (dws code) 0 code ms"
  let ?ms1 = "fst (snd ?r)"
  from Cons.prems have d: "distinct codes" and nin: "code \<notin> set codes" by auto
  note ih = Cons.IH [OF d, of ?ms1]
  have same: "map_of ?ms1 c = map_of ms c" if "c \<in> set codes" for c
  proof -
    from that nin have "c \<noteq> code" by auto
    then show ?thesis by (rule resetCounter_other_entries)
  qed
  have dep: "fst (resetCounter cfg (dws c) 0 c ?ms1) = fst (resetCounter cfg (dws c) 0 c ms) \<and>
      snd (snd (resetCounter cfg (dws c) 0 c ?ms1)) = snd (snd (resetCounter cfg (dws c) 0 c ms)) \<and>
      map_of (fst (snd (resetCounter cfg (dws c) 0 c ?ms1))) c =
      map_of (fst (snd (resetCounter cfg (dws c) 0 c ms))) c" if "c \<in> set codes" for c
    using same [OF that] by (rule resetCounter_depends_on_own_entry)
  have unf: "resetAll cfg dws (code # codes) ms =
      (fst ?r # fst (resetAll cfg dws codes ?ms1), fst (snd (resetAll cfg dws codes ?ms1)),
       snd (snd ?r) @ snd (snd (resetAll cfg dws codes ?ms1)))"
    by (simp add: split_beta)
  have m1: "map (\<lambda>c. fst (resetCounter cfg (dws c) 0 c ?ms1)) codes =
            map (\<lambda>c. fst (resetCounter cfg (dws c) 0 c ms)) codes"
    using dep by (intro map_cong) auto
  have m2: "map (\<lambda>c. snd (snd (resetCounter cfg (dws c) 0 c ?ms1))) codes =
            map (\<lambda>c. snd (snd (resetCounter cfg (dws c) 0 c ms))) codes"
    using dep by (intro map_cong) auto
  have m3: "\<forall>c. map_of (fst (snd (resetAll cfg dws codes ?ms1))) c =
        (if c \<in> set (code # codes) then map_of (fst (snd (resetCounter cfg (dws c) 0 c ms))) c
         else map_of ms c)"
  proof
    fix c
    show "map_of (fst (snd (resetAll cfg dws codes ?ms1))) c =
        (if c \<in> set (code # codes) then map_of (fst (snd (resetCounter cfg (dws c) 0 c ms))) c
         else map_of ms c)"
    proof (cases "c \<in> set codes")
      case True
      then show ?thesis using ih dep [OF True] by simp
    next
      case False
      then have "map_of (fst (snd (resetAll cfg dws codes ?ms1))) c = map_of ?ms1 c" using ih by simp
      then show ?thesis
        using False resetCounter_other_entries [of c code cfg "dws code" 0 ms] by auto
    qed
  qed
  have r1: "fst (resetAll cfg dws codes ?ms1) = map (\<lambda>c. fst (resetCounter cfg (dws c) 0 c ms)) codes"
    using ih m1 by simp
  have r2: "snd (snd (resetAll cfg dws codes ?ms1)) =
      concat (map (\<lambda>c. snd (snd (resetCounter cfg (dws c) 0 c ms))) codes)"
    using ih m2 by simp
  show ?case unfolding unf using r1 r2 m3 by (simp del: resetAll.simps)
qed


lemma promiseAll_resolved:
  "\<forall>r\<in>set rs. \<exists>b. r = Inr b \<Longrightarrow> promiseAll rs = Inr (map (\<lambda>r. r = Inr True) rs)"
  by (induction rs rule: promiseAll.induct) auto

lemma chain_resolves_for_key:
  "c \<in> set (map fst ms) \<Longrightarrow> \<exists>b. fst (resetCounter cfg ws k c ms) = Inr b"
proof -
  assume "c \<in> set (map fst ms)"
  then obtain m where "map_of ms c = Some m"
    by (metis map_of_eq_None_iff not_Some_eq set_map)
  from resetCounter_resolves [OF this, of cfg ws k] show ?thesis by auto
qed

lemma distinct_initializeMachines: "distinct (map fst (initializeMachines cfgs))"
proof -
  have "distinct (map fst ms) \<Longrightarrow>
        distinct (map fst (foldl (\<lambda>ms c. AList.update (machineCode c)
                      \<lparr>config = c, lastResetAttempt = None, resetRetryCount = 0,
                       resetStatus = False\<rparr> ms) ms cfgs))" for ms
    by (induction cfgs arbitrary: ms) (auto simp: distinct_update)
  then show ?thesis by (simp add: initializeMachines_def)
qed

lemma cycle_by_chains:
  assumes idle: "\<not> resetInProgress svc"
    and win: "hourOf (windowNow tw) = resetHour svc \<and> resetMinute svc \<le> minuteOf (windowNow tw) \<and>
           minuteOf (windowNow tw) < resetMinute svc + 15"
    and day: "\<not> (\<exists>d. lastResetDate svc = Some d \<and> isSameDay d (guardNow tw))"
    and dist: "distinct (map fst (machines svc))"
  shows "snd (checkAndResetIfNeeded cfg svc tw) =
           [Log Info ''Initiating daily PLC counter reset at ..'' []]
           @ concat (map (\<lambda>c. snd (snd (resetCounter cfg (devices tw c) 0 c (machines svc))))
                       (map fst (machines svc)))
           @ [if list_all (\<lambda>c. fst (resetCounter cfg (devices tw c) 0 c (machines svc)) = Inr True)
                   (map fst (machines svc))
              then Log Info ''Daily reset operation completed successfully for all machines'' []
              else Log Warn ''Daily reset operation completed with some failures'' []]"
    and "map fst (machines (fst (checkAndResetIfNeeded cfg svc tw))) = map fst (machines svc)"
    and "\<forall>c\<in>set (map fst (machines svc)).
           map_of (machines (fst (checkAndResetIfNeeded cfg svc tw))) c =
           map_of (fst (snd (resetCounter cfg (devices tw c) 0 c (machines svc)))) c"
    and "lastResetDate (fst (checkAndResetIfNeeded cfg svc tw)) =
           (if list_all (\<lambda>c. fst (resetCounter cfg (devices tw c) 0 c (machines svc)) = Inr True)
                 (map fst (machines svc))
            then Some (cycleNow tw) else lastResetDate svc)"
    and "\<not> resetInProgress (fst (checkAndResetIfNeeded cfg svc tw))"
    and "resetHour (fst (checkAndResetIfNeeded cfg svc tw)) = resetHour svc"
    and "resetMinute (fst (checkAndResetIfNeeded cfg svc tw)) = resetMinute svc"
proof -
  let ?keys = "map fst (machines svc)"
  let ?all = "resetAll cfg (devices tw) ?keys (machines svc)"
  let ?chain = "\<lambda>c. resetCounter cfg (devices tw c) 0 c (machines svc)"
  note ch = resetAll_by_chains [OF dist, of cfg "devices tw" "machines svc"]
  have sync: "checkAndResetIfNeeded_sync svc tw =
      (Some (cycleNow tw), svc\<lparr>resetInProgress := True\<rparr>,
       [Log Info ''Initiating daily PLC counter reset at ..'' []])"
    using idle win day by (auto simp: sync_cases isSameDay_def)
  have res: "\<forall>r\<in>set (fst ?all). \<exists>b. r = Inr b"
    using ch chain_resolves_for_key [of _ "machines svc" cfg] by auto
  have pa: "promiseAll (fst ?all) = Inr (map (\<lambda>c. fst (?chain c) = Inr True) ?keys)"
    using promiseAll_resolved [OF res] ch by (simp add: comp_def)
  have la: "list_all (\<lambda>result. result = True) (map (\<lambda>c. fst (?chain c) = Inr True) ?keys) =
            list_all (\<lambda>c. fst (?chain c) = Inr True) ?keys"
    by (simp add: list_all_iff)
  have whole: "checkAndResetIfNeeded cfg svc tw =
      (fst (checkAndResetIfNeeded_resume (svc\<lparr>resetInProgress := True, machines := fst (snd ?all)\<rparr>)
              (cycleNow tw) (promiseAll (fst ?all))),
       [Log Info ''Initiating daily PLC counter reset at ..'' []] @ snd (snd ?all)
       @ snd (checkAndResetIfNeeded_resume (svc\<lparr>resetInProgress := True, machines := fst (snd ?all)\<rparr>)
              (cycleNow tw) (promiseAll (fst ?all))))"
    by (simp add: checkAndResetIfNeeded_def sync split_beta)
  have lg: "snd (checkAndResetIfNeeded_resume (svc\<lparr>resetInProgress := True, machines := fst (snd ?all)\<rparr>)
              (cycleNow tw) (promiseAll (fst ?all))) =
        [if list_all (\<lambda>c. fst (?chain c) = Inr True) ?keys
         then Log Info ''Daily reset operation completed successfully for all machines'' []
         else Log Warn ''Daily reset operation completed with some failures'' []]"
    unfolding pa by (simp add: checkAndResetIfNeeded_resume_def Let_def list_all_iff)
  show "snd (checkAndResetIfNeeded cfg svc tw) =
           [Log Info ''Initiating daily PLC counter reset at ..'' []]
           @ concat (map (\<lambda>c. snd (snd (?chain c))) ?keys)
           @ [if list_all (\<lambda>c. fst (?chain c) = Inr True) ?keys
              then Log Info ''Daily reset operation completed successfully for all machines'' []
              else Log Warn ''Daily reset operation completed with some failures'' []]"
    unfolding whole snd_conv lg using ch by simp
  have ms: "machines (fst (checkAndResetIfNeeded cfg svc tw)) = fst (snd ?all)"
    unfolding whole fst_conv by (simp add: resume_fields)
  show "map fst (machines (fst (checkAndResetIfNeeded cfg svc tw))) = ?keys"
    unfolding ms by (rule resetAll_keys)
  show "\<forall>c\<in>set ?keys. map_of (machines (fst (checkAndResetIfNeeded cfg svc tw))) c =
           map_of (fst (snd (?chain c))) c"
    unfolding ms using ch by simp
  show "lastResetDate (fst (checkAndResetIfNeeded cfg svc tw)) =
           (if list_all (\<lambda>c. fst (?chain c) = Inr True) ?keys
            then Some (cycleNow tw) else lastResetDate svc)"
    unfolding whole fst_conv pa by (simp add: resume_lastResetDate list_all_iff)
  show "\<not> resetInProgress (fst (checkAndResetIfNeeded cfg svc tw))"
    unfolding whole fst_conv by (simp add: resume_fields)
  show "resetHour (fst (checkAndResetIfNeeded cfg svc tw)) = resetHour svc"
    unfolding whole fst_conv by (simp add: resume_fields)
  show "resetMinute (fst (checkAndResetIfNeeded cfg svc tw)) = resetMinute svc"
    unfolding whole fst_conv by (simp add: resume_fields)
qed


lemma distinct_configured: "distinct (map fst (machines configuredService))"
  unfolding configuredService_def newPLCResetService_def
  by (simp add: distinct_initializeMachines)

text \<open>
  C1. The first segment of \<^verbatim>\<open>checkAndResetIfNeeded\<close> runs without suspension and
  decides in this order. If \<open>resetInProgress\<close> is set, the call returns, whatever the
  clock and \<open>lastResetDate\<close> are. Otherwise, if the clock is outside the primary window
  (hour \<open>resetHour\<close>, minute from \<open>resetMinute\<close> up to but excluding
  \<open>resetMinute + 15\<close>), it returns, whatever \<open>lastResetDate\<close> is. Otherwise, if
  \<open>lastResetDate\<close> is on the same calendar day as the clock, it returns. In these three
  cases the service is unchanged and the trace has no gateway call: no cycle was started.
  Only otherwise does it set \<open>resetInProgress\<close> and run one fleet-wide cycle. The cycle
  is one \<^verbatim>\<open>resetCounter\<close> chain for each machine code of the table, each started from
  the table as the call found it: the trace of the call is the opening line, the traces of
  these chains, and the closing line; the table afterwards has the same codes, and the
  entry of each code is the one its chain left. The codes of the table are distinct, as
  the keys of a \<^verbatim>\<open>Map\<close> are.
\<close>

theorem checkAndResetIfNeeded_guards:
  "(resetInProgress svc \<longrightarrow>
      checkAndResetIfNeeded_sync svc tw =
        (None, svc, [Log Debug ''Reset operation already in progress'' []]) \<and>
      checkAndResetIfNeeded cfg svc tw =
        (svc, [Log Debug ''Reset operation already in progress'' []]))
   \<and> (\<not> resetInProgress svc \<and>
        \<not> (hourOf (windowNow tw) = resetHour svc \<and> resetMinute svc \<le> minuteOf (windowNow tw) \<and>
           minuteOf (windowNow tw) < resetMinute svc + 15) \<longrightarrow>
      checkAndResetIfNeeded_sync svc tw = (None, svc, []) \<and>
      checkAndResetIfNeeded cfg svc tw = (svc, []))
   \<and> (\<not> resetInProgress svc \<and>
        (hourOf (windowNow tw) = resetHour svc \<and> resetMinute svc \<le> minuteOf (windowNow tw) \<and>
           minuteOf (windowNow tw) < resetMinute svc + 15) \<and>
        lastResetDate svc = Some d \<and> isSameDay d (guardNow tw) \<longrightarrow>
      checkAndResetIfNeeded_sync svc tw =
        (None, svc, [Log Debug ''Already performed reset operations today'' []]) \<and>
      checkAndResetIfNeeded cfg svc tw =
        (svc, [Log Debug ''Already performed reset operations today'' []]))
   \<and> (\<not> resetInProgress svc \<and>
        (hourOf (windowNow tw) = resetHour svc \<and> resetMinute svc \<le> minuteOf (windowNow tw) \<and>
           minuteOf (windowNow tw) < resetMinute svc + 15) \<and>
        (lastResetDate svc = None \<or>
         (\<exists>d'. lastResetDate svc = Some d' \<and> \<not> isSameDay d' (guardNow tw))) \<longrightarrow>
      checkAndResetIfNeeded_sync svc tw =
        (Some (cycleNow tw), svc\<lparr>resetInProgress := True\<rparr>,
         [Log Info ''Initiating daily PLC counter reset at ..'' []]))
   \<and> (\<not> resetInProgress svc \<and>
        (hourOf (windowNow tw) = resetHour svc \<and> resetMinute svc \<le> minuteOf (windowNow tw) \<and>
           minuteOf (windowNow tw) < resetMinute svc + 15) \<and>
        (lastResetDate svc = None \<or>
         (\<exists>d'. lastResetDate svc = Some d' \<and> \<not> isSameDay d' (guardNow tw))) \<and>
        distinct (map fst (machines svc)) \<longrightarrow>
      snd (checkAndResetIfNeeded cfg svc tw) =
        [Log Info ''Initiating daily PLC counter reset at ..'' []]
        @ concat (map (\<lambda>c. snd (snd (resetCounter cfg (devices tw c) 0 c (machines svc))))
                    (map fst (machines svc)))
        @ [if list_all (\<lambda>c. fst (resetCounter cfg (devices tw c) 0 c (machines svc)) = Inr True)
                (map fst (machines svc))
           then Log Info ''Daily reset operation completed successfully for all machines'' []
           else Log Warn ''Daily reset operation completed with some failures'' []] \<and>
      map fst (machines (fst (checkAndResetIfNeeded cfg svc tw))) = map fst (machines svc) \<and>
      (\<forall>c\<in>set (map fst (machines svc)).
          map_of (machines (fst (checkAndResetIfNeeded cfg svc tw))) c =
          map_of (fst (snd (resetCounter cfg (devices tw c) 0 c (machines svc)))) c))"
proof -
  have early: "(resetInProgress svc \<longrightarrow>
      checkAndResetIfNeeded_sync svc tw =
        (None, svc, [Log Debug ''Reset operation already in progress'' []]) \<and>
      checkAndResetIfNeeded cfg svc tw =
        (svc, [Log Debug ''Reset operation already in progress'' []]))
   \<and> (\<not> resetInProgress svc \<and>
        \<not> (hourOf (windowNow tw) = resetHour svc \<and> resetMinute svc \<le> minuteOf (windowNow tw) \<and>
           minuteOf (windowNow tw) < resetMinute svc + 15) \<longrightarrow>
      checkAndResetIfNeeded_sync svc tw = (None, svc, []) \<and>
      checkAndResetIfNeeded cfg svc tw = (svc, []))
   \<and> (\<not> resetInProgress svc \<and>
        (hourOf (windowNow tw) = resetHour svc \<and> resetMinute svc \<le> minuteOf (windowNow tw) \<and>
           minuteOf (windowNow tw) < resetMinute svc + 15) \<and>
        lastResetDate svc = Some d \<and> isSameDay d (guardNow tw) \<longrightarrow>
      checkAndResetIfNeeded_sync svc tw =
        (None, svc, [Log Debug ''Already performed reset operations today'' []]) \<and>
      checkAndResetIfNeeded cfg svc tw =
        (svc, [Log Debug ''Already performed reset operations today'' []]))
   \<and> (\<not> resetInProgress svc \<and>
        (hourOf (windowNow tw) = resetHour svc \<and> resetMinute svc \<le> minuteOf (windowNow tw) \<and>
           minuteOf (windowNow tw) < resetMinute svc + 15) \<and>
        (lastResetDate svc = None \<or>
         (\<exists>d'. lastResetDate svc = Some d' \<and> \<not> isSameDay d' (guardNow tw))) \<longrightarrow>
      checkAndResetIfNeeded_sync svc tw =
        (Some (cycleNow tw), svc\<lparr>resetInProgress := True\<rparr>,
         [Log Info ''Initiating daily PLC counter reset at ..'' []]))"
    by (auto simp: checkAndResetIfNeeded_def sync_cases isSameDay_def)
  have cyc: "\<not> resetInProgress svc \<and>
        (hourOf (windowNow tw) = resetHour svc \<and> resetMinute svc \<le> minuteOf (windowNow tw) \<and>
           minuteOf (windowNow tw) < resetMinute svc + 15) \<and>
        (lastResetDate svc = None \<or>
         (\<exists>d'. lastResetDate svc = Some d' \<and> \<not> isSameDay d' (guardNow tw))) \<and>
        distinct (map fst (machines svc)) \<longrightarrow>
      snd (checkAndResetIfNeeded cfg svc tw) =
        [Log Info ''Initiating daily PLC counter reset at ..'' []]
        @ concat (map (\<lambda>c. snd (snd (resetCounter cfg (devices tw c) 0 c (machines svc))))
                    (map fst (machines svc)))
        @ [if list_all (\<lambda>c. fst (resetCounter cfg (devices tw c) 0 c (machines svc)) = Inr True)
                (map fst (machines svc))
           then Log Info ''Daily reset operation completed successfully for all machines'' []
           else Log Warn ''Daily reset operation completed with some failures'' []] \<and>
      map fst (machines (fst (checkAndResetIfNeeded cfg svc tw))) = map fst (machines svc) \<and>
      (\<forall>c\<in>set (map fst (machines svc)).
          map_of (machines (fst (checkAndResetIfNeeded cfg svc tw))) c =
          map_of (fst (snd (resetCounter cfg (devices tw c) 0 c (machines svc)))) c)"
  proof (intro impI, elim conjE)
    assume idle: "\<not> resetInProgress svc"
      and w1: "hourOf (windowNow tw) = resetHour svc"
      and w2: "resetMinute svc \<le> minuteOf (windowNow tw)"
      and w3: "minuteOf (windowNow tw) < resetMinute svc + 15"
      and dd: "lastResetDate svc = None \<or>
         (\<exists>d'. lastResetDate svc = Some d' \<and> \<not> isSameDay d' (guardNow tw))"
      and dist: "distinct (map fst (machines svc))"
    have win: "hourOf (windowNow tw) = resetHour svc \<and> resetMinute svc \<le> minuteOf (windowNow tw) \<and>
           minuteOf (windowNow tw) < resetMinute svc + 15" using w1 w2 w3 by simp
    have day: "\<not> (\<exists>d. lastResetDate svc = Some d \<and> isSameDay d (guardNow tw))"
      using dd by auto
    note cc = cycle_by_chains [OF idle win day dist, of cfg]
    show "snd (checkAndResetIfNeeded cfg svc tw) =
        [Log Info ''Initiating daily PLC counter reset at ..'' []]
        @ concat (map (\<lambda>c. snd (snd (resetCounter cfg (devices tw c) 0 c (machines svc))))
                    (map fst (machines svc)))
        @ [if list_all (\<lambda>c. fst (resetCounter cfg (devices tw c) 0 c (machines svc)) = Inr True)
                (map fst (machines svc))
           then Log Info ''Daily reset operation completed successfully for all machines'' []
           else Log Warn ''Daily reset operation completed with some failures'' []] \<and>
      map fst (machines (fst (checkAndResetIfNeeded cfg svc tw))) = map fst (machines svc) \<and>
      (\<forall>c\<in>set (map fst (machines svc)).
          map_of (machines (fst (checkAndResetIfNeeded cfg svc tw))) c =
          map_of (fst (snd (resetCounter cfg (devices tw c) 0 c (machines svc)))) c)"
      by (intro conjI cc(1) cc(2) cc(3))
  qed
  from early cyc show ?thesis by (elim conjE) (intro conjI; assumption)
qed


theorem checkAndResetIfNeeded_guards_witness:
  "checkAndResetIfNeeded_sync (configuredService\<lparr>resetInProgress := True\<rparr>) healthyTick =
     (None, configuredService\<lparr>resetInProgress := True\<rparr>,
      [Log Debug ''Reset operation already in progress'' []])
   \<and> checkAndResetIfNeeded_sync configuredService lateTick = (None, configuredService, [])
   \<and> checkAndResetIfNeeded_sync (configuredService\<lparr>lastResetDate := Some at1625\<rparr>) healthyTick =
       (None, configuredService\<lparr>lastResetDate := Some at1625\<rparr>,
        [Log Debug ''Already performed reset operations today'' []])
   \<and> checkAndResetIfNeeded_sync configuredService healthyTick =
       (Some at1625, configuredService\<lparr>resetInProgress := True\<rparr>,
        [Log Info ''Initiating daily PLC counter reset at ..'' []])
   \<and> distinct (map fst (machines configuredService))
   \<and> map fst (machines (fst (checkAndResetIfNeeded globalConfig configuredService healthyTick))) =
       [''45051'', ''45050'', ''45045'', ''45044'', ''45047'']
   \<and> map_of (machines (fst (checkAndResetIfNeeded globalConfig configuredService healthyTick)))
         ''45047'' =
       Some ((freshMachine ''45047'' ''10.42.46.5'')
               \<lparr>lastResetAttempt := Some at1625, resetRetryCount := 0, resetStatus := True\<rparr>)"
proof -
  note a = checkAndResetIfNeeded_guards
      [of "configuredService\<lparr>resetInProgress := True\<rparr>" healthyTick globalConfig at1625]
  note b = checkAndResetIfNeeded_guards [of configuredService lateTick globalConfig at1625]
  note c = checkAndResetIfNeeded_guards
      [of "configuredService\<lparr>lastResetDate := Some at1625\<rparr>" healthyTick globalConfig at1625]
  note d = checkAndResetIfNeeded_guards [of configuredService healthyTick globalConfig at1625]
  note a1 = a [THEN conjunct1]
  note b2 = b [THEN conjunct2, THEN conjunct1]
  note c3 = c [THEN conjunct2, THEN conjunct2, THEN conjunct1]
  note d4 = d [THEN conjunct2, THEN conjunct2, THEN conjunct2, THEN conjunct1]
  note d5 = d [THEN conjunct2, THEN conjunct2, THEN conjunct2, THEN conjunct2]
  have g: "\<not> resetInProgress configuredService \<and>
        (hourOf (windowNow healthyTick) = resetHour configuredService \<and>
         resetMinute configuredService \<le> minuteOf (windowNow healthyTick) \<and>
         minuteOf (windowNow healthyTick) < resetMinute configuredService + 15) \<and>
        (lastResetDate configuredService = None \<or>
         (\<exists>d'. lastResetDate configuredService = Some d' \<and> \<not> isSameDay d' (guardNow healthyTick))) \<and>
        distinct (map fst (machines configuredService))"
    by (simp add: configuredService_fields healthyTick_def at1625_def distinct_configured)
  note cyc = d5 [rule_format, OF g]
  have keys: "map fst (machines (fst (checkAndResetIfNeeded globalConfig configuredService healthyTick))) =
       [''45051'', ''45050'', ''45045'', ''45044'', ''45047'']"
    using cyc [THEN conjunct2, THEN conjunct1] by (simp add: machines_configuredService)
  have ent: "map_of (machines (fst (checkAndResetIfNeeded globalConfig configuredService healthyTick)))
         ''45047'' =
       map_of (fst (snd (resetCounter globalConfig (devices healthyTick ''45047'') 0 ''45047''
                           (machines configuredService)))) ''45047''"
    using cyc [THEN conjunct2, THEN conjunct2] by (simp add: machines_configuredService)
  have "devices healthyTick ''45047'' = alwaysHealthy" by (simp add: healthyTick_def healthyFleet_def)
  with ent healthy_chain(2) have ent': "map_of (machines (fst (checkAndResetIfNeeded globalConfig
        configuredService healthyTick))) ''45047'' =
       Some ((freshMachine ''45047'' ''10.42.46.5'')
               \<lparr>lastResetAttempt := Some at1625, resetRetryCount := 0, resetStatus := True\<rparr>)"
    by simp
  have s1: "checkAndResetIfNeeded_sync (configuredService\<lparr>resetInProgress := True\<rparr>) healthyTick =
     (None, configuredService\<lparr>resetInProgress := True\<rparr>,
      [Log Debug ''Reset operation already in progress'' []])"
    using a1 by simp
  have s2: "checkAndResetIfNeeded_sync configuredService lateTick = (None, configuredService, [])"
    using b2 by (simp add: configuredService_fields lateTick_def at1700_def)
  have s3: "checkAndResetIfNeeded_sync (configuredService\<lparr>lastResetDate := Some at1625\<rparr>) healthyTick =
       (None, configuredService\<lparr>lastResetDate := Some at1625\<rparr>,
        [Log Debug ''Already performed reset operations today'' []])"
    using c3 by (simp add: configuredService_fields healthyTick_def at1625_def isSameDay_def)
  have s4: "checkAndResetIfNeeded_sync configuredService healthyTick =
       (Some at1625, configuredService\<lparr>resetInProgress := True\<rparr>,
        [Log Info ''Initiating daily PLC counter reset at ..'' []])"
    using d4 by (simp add: configuredService_fields healthyTick_def at1625_def)
  show ?thesis by (intro conjI s1 s2 s3 s4 distinct_configured keys ent')
qed

subsection \<open>Mutual exclusion of cycles\<close>

lemma tickStep_cases:
  "tickStep s tw =
     (if fst (checkAndResetIfNeeded_sync (svcOf s) tw) = None then s
      else \<lparr>svcOf = (svcOf s)\<lparr>resetInProgress := True\<rparr>, inFlight = cycleNow tw # inFlight s\<rparr>)"
  by (simp add: tickStep_def sync_cases)

lemma sync_in_progress:
  "resetInProgress svc \<Longrightarrow>
   checkAndResetIfNeeded_sync svc tw = (None, svc, [Log Debug ''Reset operation already in progress'' []])"
  by (simp add: sync_cases)

lemma sync_starts_only_when_idle:
  "fst (checkAndResetIfNeeded_sync svc tw) \<noteq> None \<Longrightarrow> \<not> resetInProgress svc"
  by (auto simp: sync_cases split: if_splits)

lemma step_invariant:
  assumes "step s s'"
    and "length (inFlight s) \<le> 1 \<and> (resetInProgress (svcOf s) \<longleftrightarrow> inFlight s \<noteq> [])"
  shows "length (inFlight s') \<le> 1 \<and> (resetInProgress (svcOf s') \<longleftrightarrow> inFlight s' \<noteq> [])"
  using assms
proof (induction rule: step.induct)
  case (tick s tw)
  show ?case
  proof (cases "fst (checkAndResetIfNeeded_sync (svcOf s) tw) = None")
    case True
    then show ?thesis using tick by (simp add: tickStep_cases)
  next
    case False
    then have "\<not> resetInProgress (svcOf s)" by (rule sync_starts_only_when_idle)
    with tick have "inFlight s = []" by simp
    with False show ?thesis by (auto simp: tickStep_cases)
  qed
next
  case (worker s ms)
  then show ?case by simp
next
  case (settle now s settled)
  then have "inFlight s = [now]" by (cases "inFlight s") auto
  then show ?case by (simp add: resume_fields)
qed

lemma reachable_invariant:
  "reachable s \<Longrightarrow> length (inFlight s) \<le> 1 \<and> (resetInProgress (svcOf s) \<longleftrightarrow> inFlight s \<noteq> [])"
proof (induction rule: reachable.induct)
  case (reach_init cfg cfgs)
  then show ?case by (simp add: newPLCResetService_def)
next
  case (reach_step s s')
  then show ?case using step_invariant by blast
qed

text \<open>
  C2. In every state the running service can reach, by ticks of either timer, progress of
  reset workers and settling of cycles, interleaved in any order, at most one fleet-wide
  cycle is in flight. While one is in flight, a call of \<^verbatim>\<open>checkAndResetIfNeeded\<close>
  returns at its first guard: it starts no cycle and leaves the service, that is
  \<open>resetInProgress\<close>, \<open>lastResetDate\<close> and every machine entry, as it was. So of two
  ticks in immediate succession the first, if it passes the guards, starts the only cycle
  and the second changes nothing. The check of the guard and the setting of
  \<open>resetInProgress\<close> are in the same synchronous segment (\<open>tickStep\<close> is one step):
  lines 218 to 223 contain no \<^verbatim>\<open>await\<close>.
\<close>

theorem tick_during_cycle_is_noop:
  assumes "reachable s"
  shows "length (inFlight s) \<le> 1
   \<and> (inFlight s \<noteq> [] \<longrightarrow>
        checkAndResetIfNeeded_sync (svcOf s) tw =
          (None, svcOf s, [Log Debug ''Reset operation already in progress'' []]) \<and>
        checkAndResetIfNeeded cfg (svcOf s) tw =
          (svcOf s, [Log Debug ''Reset operation already in progress'' []]) \<and>
        tickStep s tw = s)
   \<and> length (inFlight (tickStep (tickStep s tw) tw')) \<le> 1
   \<and> (inFlight s = [] \<and> fst (checkAndResetIfNeeded_sync (svcOf s) tw) \<noteq> None \<longrightarrow>
        inFlight (tickStep s tw) = [cycleNow tw] \<and>
        tickStep (tickStep s tw) tw' = tickStep s tw)"
proof -
  note inv = reachable_invariant [OF assms]
  have r1: "reachable (tickStep s tw)" using assms step.tick reachable.reach_step by blast
  then have r2: "reachable (tickStep (tickStep s tw) tw')" using step.tick reachable.reach_step by blast
  have a: "inFlight s \<noteq> [] \<longrightarrow>
        checkAndResetIfNeeded_sync (svcOf s) tw =
          (None, svcOf s, [Log Debug ''Reset operation already in progress'' []]) \<and>
        checkAndResetIfNeeded cfg (svcOf s) tw =
          (svcOf s, [Log Debug ''Reset operation already in progress'' []]) \<and>
        tickStep s tw = s"
    using inv by (auto simp: sync_in_progress checkAndResetIfNeeded_def tickStep_def)
  have b: "inFlight s = [] \<and> fst (checkAndResetIfNeeded_sync (svcOf s) tw) \<noteq> None \<longrightarrow>
        inFlight (tickStep s tw) = [cycleNow tw] \<and>
        tickStep (tickStep s tw) tw' = tickStep s tw"
    by (auto simp: tickStep_cases sync_in_progress)
  show ?thesis using inv a b reachable_invariant [OF r2] by blast
qed


theorem tick_during_cycle_is_noop_witness:
  "reachable \<lparr>svcOf = configuredService, inFlight = []\<rparr>
   \<and> inFlight (tickStep \<lparr>svcOf = configuredService, inFlight = []\<rparr> healthyTick) = [at1625]
   \<and> tickStep (tickStep \<lparr>svcOf = configuredService, inFlight = []\<rparr> healthyTick) healthyTick =
       tickStep \<lparr>svcOf = configuredService, inFlight = []\<rparr> healthyTick
   \<and> length (inFlight (tickStep (tickStep \<lparr>svcOf = configuredService, inFlight = []\<rparr>
                                  healthyTick) healthyTick)) \<le> 1"
proof -
  have r: "reachable \<lparr>svcOf = configuredService, inFlight = []\<rparr>"
    unfolding configuredService_def by (rule reachable.reach_init)
  have st: "fst (checkAndResetIfNeeded_sync configuredService healthyTick) \<noteq> None"
    by (simp add: sync_cases configuredService_fields healthyTick_def at1625_def)
  show ?thesis
    using r st tick_during_cycle_is_noop
        [OF r, where tw = healthyTick and tw' = healthyTick and cfg = globalConfig]
    by (simp add: healthyTick_def)
qed

subsection \<open>The daily guard\<close>

lemma fleet_outcomes:
  "list_all (\<lambda>c. fst (resetCounter globalConfig (devices healthyTick c) 0 c
                         (machines configuredService)) = Inr True)
     (map fst (machines configuredService))"
  "\<not> list_all (\<lambda>c. fst (resetCounter globalConfig (devices oneFailingTick c) 0 c
                           (machines configuredService)) = Inr True)
       (map fst (machines configuredService))"
  by (simp_all add: machines_configuredService resetCounter.simps tryReset_def healthyTick_def
      oneFailingTick_def healthyFleet_def oneFailingFleet_def alwaysHealthy_def
      alwaysRejecting_def healthyDevice_def rejectingDevice_def globalConfig_def freshMachine_def)

text \<open>
  C3. Take a call of \<^verbatim>\<open>checkAndResetIfNeeded\<close> that begins a cycle, on a table of
  distinct codes. Each machine's entry afterwards is the one its \<^verbatim>\<open>resetCounter\<close>
  chain left. If the chain of every machine resolved to \<^verbatim>\<open>true\<close>, the call leaves
  \<open>lastResetDate\<close> at the \<^verbatim>\<open>now\<close> the cycle captured, and a later tick inside the
  window on that same day returns at the third guard without starting a cycle. If the chain
  of at least one machine did not, \<open>lastResetDate\<close> is what it was before the call, and
  a later tick inside the window, on the day of the first tick, begins a new cycle that
  runs the \<^verbatim>\<open>resetCounter\<close> chain of every machine of the table again, those already
  reset included.
\<close>

theorem lastResetDate_advances_iff_all_succeed:
  assumes "checkAndResetIfNeeded_sync svc tw = (Some now, svc1, lg)"
    and "distinct (map fst (machines svc))"
    and "checkAndResetIfNeeded cfg svc tw = (svc', out)"
  shows "(\<forall>c\<in>set (map fst (machines svc)).
            map_of (machines svc') c =
            map_of (fst (snd (resetCounter cfg (devices tw c) 0 c (machines svc)))) c)
       \<and> (list_all (\<lambda>c. fst (resetCounter cfg (devices tw c) 0 c (machines svc)) = Inr True)
              (map fst (machines svc)) \<longrightarrow>
            lastResetDate svc' = Some (cycleNow tw) \<and>
            (isWithinResetWindow svc' (windowNow tw') \<and> isSameDay (cycleNow tw) (guardNow tw') \<longrightarrow>
               checkAndResetIfNeeded_sync svc' tw' =
                 (None, svc', [Log Debug ''Already performed reset operations today'' []]) \<and>
               checkAndResetIfNeeded cfg svc' tw' =
                 (svc', [Log Debug ''Already performed reset operations today'' []])))
       \<and> (\<not> list_all (\<lambda>c. fst (resetCounter cfg (devices tw c) 0 c (machines svc)) = Inr True)
                (map fst (machines svc)) \<longrightarrow>
            lastResetDate svc' = lastResetDate svc \<and>
            (isWithinResetWindow svc' (windowNow tw') \<and> isSameDay (guardNow tw) (guardNow tw') \<longrightarrow>
               checkAndResetIfNeeded_sync svc' tw' =
                 (Some (cycleNow tw'), svc'\<lparr>resetInProgress := True\<rparr>,
                  [Log Info ''Initiating daily PLC counter reset at ..'' []]) \<and>
               map fst (machines svc') = map fst (machines svc) \<and>
               snd (checkAndResetIfNeeded cfg svc' tw') =
                 [Log Info ''Initiating daily PLC counter reset at ..'' []]
                 @ concat (map (\<lambda>c. snd (snd (resetCounter cfg (devices tw' c) 0 c (machines svc'))))
                             (map fst (machines svc)))
                 @ [if list_all (\<lambda>c. fst (resetCounter cfg (devices tw' c) 0 c (machines svc')) =
                                      Inr True) (map fst (machines svc))
                    then Log Info ''Daily reset operation completed successfully for all machines'' []
                    else Log Warn ''Daily reset operation completed with some failures'' []] \<and>
               (\<forall>c\<in>set (map fst (machines svc)).
                   map_of (machines (fst (checkAndResetIfNeeded cfg svc' tw'))) c =
                   map_of (fst (snd (resetCounter cfg (devices tw' c) 0 c (machines svc')))) c)))"
proof -
  from assms(1) have idle: "\<not> resetInProgress svc"
    and win: "hourOf (windowNow tw) = resetHour svc \<and> resetMinute svc \<le> minuteOf (windowNow tw) \<and>
           minuteOf (windowNow tw) < resetMinute svc + 15"
    and day0: "\<not> (\<exists>d. lastResetDate svc = Some d \<and> dayOf d = dayOf (guardNow tw))"
    by (auto simp: sync_cases split: if_splits)
  have day: "\<not> (\<exists>d. lastResetDate svc = Some d \<and> isSameDay d (guardNow tw))"
    using day0 by (simp add: isSameDay_def)
  have svc': "fst (checkAndResetIfNeeded cfg svc tw) = svc'" using assms(3) by simp
  note cc = cycle_by_chains [OF idle win day assms(2), of cfg, unfolded svc']
  have first: "\<forall>c\<in>set (map fst (machines svc)).
            map_of (machines svc') c =
            map_of (fst (snd (resetCounter cfg (devices tw c) 0 c (machines svc)))) c"
    by (rule cc(3))
  have ok: "list_all (\<lambda>c. fst (resetCounter cfg (devices tw c) 0 c (machines svc)) = Inr True)
              (map fst (machines svc)) \<longrightarrow>
            lastResetDate svc' = Some (cycleNow tw) \<and>
            (isWithinResetWindow svc' (windowNow tw') \<and> isSameDay (cycleNow tw) (guardNow tw') \<longrightarrow>
               checkAndResetIfNeeded_sync svc' tw' =
                 (None, svc', [Log Debug ''Already performed reset operations today'' []]) \<and>
               checkAndResetIfNeeded cfg svc' tw' =
                 (svc', [Log Debug ''Already performed reset operations today'' []]))"
    using cc(4) cc(5)
    by (auto simp: sync_cases isWithinResetWindow_def isSameDay_def checkAndResetIfNeeded_def)
  have ko: "\<not> list_all (\<lambda>c. fst (resetCounter cfg (devices tw c) 0 c (machines svc)) = Inr True)
                (map fst (machines svc)) \<longrightarrow>
            lastResetDate svc' = lastResetDate svc \<and>
            (isWithinResetWindow svc' (windowNow tw') \<and> isSameDay (guardNow tw) (guardNow tw') \<longrightarrow>
               checkAndResetIfNeeded_sync svc' tw' =
                 (Some (cycleNow tw'), svc'\<lparr>resetInProgress := True\<rparr>,
                  [Log Info ''Initiating daily PLC counter reset at ..'' []]) \<and>
               map fst (machines svc') = map fst (machines svc) \<and>
               snd (checkAndResetIfNeeded cfg svc' tw') =
                 [Log Info ''Initiating daily PLC counter reset at ..'' []]
                 @ concat (map (\<lambda>c. snd (snd (resetCounter cfg (devices tw' c) 0 c (machines svc'))))
                             (map fst (machines svc)))
                 @ [if list_all (\<lambda>c. fst (resetCounter cfg (devices tw' c) 0 c (machines svc')) =
                                      Inr True) (map fst (machines svc))
                    then Log Info ''Daily reset operation completed successfully for all machines'' []
                    else Log Warn ''Daily reset operation completed with some failures'' []] \<and>
               (\<forall>c\<in>set (map fst (machines svc)).
                   map_of (machines (fst (checkAndResetIfNeeded cfg svc' tw'))) c =
                   map_of (fst (snd (resetCounter cfg (devices tw' c) 0 c (machines svc')))) c))"
  proof (intro impI conjI)
    assume nall: "\<not> list_all (\<lambda>c. fst (resetCounter cfg (devices tw c) 0 c (machines svc)) = Inr True)
                (map fst (machines svc))"
    show date: "lastResetDate svc' = lastResetDate svc" using cc(4) nall by simp
    assume later: "isWithinResetWindow svc' (windowNow tw') \<and> isSameDay (guardNow tw) (guardNow tw')"
    have idle': "\<not> resetInProgress svc'" by (rule cc(5))
    have win': "hourOf (windowNow tw') = resetHour svc' \<and>
           resetMinute svc' \<le> minuteOf (windowNow tw') \<and>
           minuteOf (windowNow tw') < resetMinute svc' + 15"
      using later by (simp add: isWithinResetWindow_def Let_def)
    have day': "\<not> (\<exists>d. lastResetDate svc' = Some d \<and> isSameDay d (guardNow tw'))"
      using day later date by (auto simp: isSameDay_def)
    have dist': "distinct (map fst (machines svc'))" using cc(2) assms(2) by simp
    note c2 = cycle_by_chains [OF idle' win' day' dist', of cfg, unfolded cc(2)]
    show "checkAndResetIfNeeded_sync svc' tw' =
                 (Some (cycleNow tw'), svc'\<lparr>resetInProgress := True\<rparr>,
                  [Log Info ''Initiating daily PLC counter reset at ..'' []])"
      using idle' win' day' by (auto simp: sync_cases isSameDay_def)
    show "map fst (machines svc') = map fst (machines svc)" by (rule cc(2))
    show "snd (checkAndResetIfNeeded cfg svc' tw') =
                 [Log Info ''Initiating daily PLC counter reset at ..'' []]
                 @ concat (map (\<lambda>c. snd (snd (resetCounter cfg (devices tw' c) 0 c (machines svc'))))
                             (map fst (machines svc)))
                 @ [if list_all (\<lambda>c. fst (resetCounter cfg (devices tw' c) 0 c (machines svc')) =
                                      Inr True) (map fst (machines svc))
                    then Log Info ''Daily reset operation completed successfully for all machines'' []
                    else Log Warn ''Daily reset operation completed with some failures'' []]"
      by (rule c2(1))
    show "\<forall>c\<in>set (map fst (machines svc)).
                   map_of (machines (fst (checkAndResetIfNeeded cfg svc' tw'))) c =
                   map_of (fst (snd (resetCounter cfg (devices tw' c) 0 c (machines svc')))) c"
      by (rule c2(3))
  qed
  show ?thesis by (intro conjI first ok ko)
qed


theorem lastResetDate_advances_iff_all_succeed_witness:
  "lastResetDate (fst (checkAndResetIfNeeded globalConfig configuredService healthyTick)) =
     Some at1625
   \<and> fst (checkAndResetIfNeeded_sync
            (fst (checkAndResetIfNeeded globalConfig configuredService healthyTick)) healthyTick) =
       None
   \<and> lastResetDate (fst (checkAndResetIfNeeded globalConfig configuredService oneFailingTick)) =
       None
   \<and> fst (checkAndResetIfNeeded_sync
            (fst (checkAndResetIfNeeded globalConfig configuredService oneFailingTick)) healthyTick) =
       Some at1625"
proof -
  have s1: "checkAndResetIfNeeded_sync configuredService healthyTick =
      (Some at1625, configuredService\<lparr>resetInProgress := True\<rparr>,
       [Log Info ''Initiating daily PLC counter reset at ..'' []])"
    by (simp add: sync_cases configuredService_fields healthyTick_def at1625_def)
  have s2: "checkAndResetIfNeeded_sync configuredService oneFailingTick =
      (Some at1625, configuredService\<lparr>resetInProgress := True\<rparr>,
       [Log Info ''Initiating daily PLC counter reset at ..'' []])"
    by (simp add: sync_cases configuredService_fields oneFailingTick_def at1625_def)
  have w1: "checkAndResetIfNeeded globalConfig configuredService healthyTick =
      (fst (checkAndResetIfNeeded globalConfig configuredService healthyTick),
       snd (checkAndResetIfNeeded globalConfig configuredService healthyTick))" by simp
  have w2: "checkAndResetIfNeeded globalConfig configuredService oneFailingTick =
      (fst (checkAndResetIfNeeded globalConfig configuredService oneFailingTick),
       snd (checkAndResetIfNeeded globalConfig configuredService oneFailingTick))" by simp
  note t1 = lastResetDate_advances_iff_all_succeed
      [OF s1 distinct_configured w1, where tw' = healthyTick, THEN conjunct2, THEN conjunct1,
       rule_format, OF fleet_outcomes(1)]
  note t2 = lastResetDate_advances_iff_all_succeed
      [OF s2 distinct_configured w2, where tw' = healthyTick, THEN conjunct2, THEN conjunct2,
       rule_format, OF fleet_outcomes(2)]
  have d1: "lastResetDate (fst (checkAndResetIfNeeded globalConfig configuredService healthyTick)) =
     Some at1625"
    using t1 [THEN conjunct1] by (simp add: healthyTick_def)
  have d2: "lastResetDate (fst (checkAndResetIfNeeded globalConfig configuredService oneFailingTick)) =
     None"
    using t2 [THEN conjunct1] by (simp add: configuredService_fields)
  have idle: "\<not> resetInProgress configuredService"
    and win: "hourOf (windowNow healthyTick) = resetHour configuredService \<and>
           resetMinute configuredService \<le> minuteOf (windowNow healthyTick) \<and>
           minuteOf (windowNow healthyTick) < resetMinute configuredService + 15"
    and wino: "hourOf (windowNow oneFailingTick) = resetHour configuredService \<and>
           resetMinute configuredService \<le> minuteOf (windowNow oneFailingTick) \<and>
           minuteOf (windowNow oneFailingTick) < resetMinute configuredService + 15"
    and day: "\<not> (\<exists>d. lastResetDate configuredService = Some d \<and> isSameDay d (guardNow healthyTick))"
    and dayo: "\<not> (\<exists>d. lastResetDate configuredService = Some d \<and> isSameDay d (guardNow oneFailingTick))"
    by (simp_all add: configuredService_fields healthyTick_def oneFailingTick_def at1625_def)
  note k1 = cycle_by_chains [OF idle win day distinct_configured, of globalConfig]
  note k2 = cycle_by_chains [OF idle wino dayo distinct_configured, of globalConfig]
  have win1: "isWithinResetWindow (fst (checkAndResetIfNeeded globalConfig configuredService healthyTick))
      (windowNow healthyTick)"
    using k1(6) k1(7)
    by (simp add: isWithinResetWindow_def configuredService_fields healthyTick_def at1625_def)
  have win2: "isWithinResetWindow (fst (checkAndResetIfNeeded globalConfig configuredService oneFailingTick))
      (windowNow healthyTick)"
    using k2(6) k2(7)
    by (simp add: isWithinResetWindow_def configuredService_fields healthyTick_def at1625_def)
  have sd: "isSameDay (cycleNow healthyTick) (guardNow healthyTick)"
    "isSameDay (guardNow oneFailingTick) (guardNow healthyTick)"
    by (simp_all add: isSameDay_def healthyTick_def oneFailingTick_def)
  have n1: "fst (checkAndResetIfNeeded_sync
            (fst (checkAndResetIfNeeded globalConfig configuredService healthyTick)) healthyTick) =
       None"
    using t1 [THEN conjunct2, rule_format, OF conjI [OF win1 sd(1)], THEN conjunct1] by simp
  have n2: "fst (checkAndResetIfNeeded_sync
            (fst (checkAndResetIfNeeded globalConfig configuredService oneFailingTick)) healthyTick) =
       Some at1625"
    using t2 [THEN conjunct2, rule_format, OF conjI [OF win2 sd(2)], THEN conjunct1]
    by (simp add: healthyTick_def)
  show ?thesis by (intro conjI d1 n1 d2 n2)
qed

text \<open>
  C4. The second segment of \<^verbatim>\<open>checkAndResetIfNeeded\<close> leaves \<open>resetInProgress\<close>
  false whatever \<^verbatim>\<open>Promise.all\<close> settled to: a list of outcomes, all successful or not
  (\<open>Inr\<close>), or a fault raised during the cycle (\<open>Inl\<close>, handled by \<^verbatim>\<open>catch\<close> and
  \<^verbatim>\<open>finally\<close>). Hence every call that begins a cycle returns with
  \<open>resetInProgress\<close> false.
\<close>

theorem resetInProgress_always_cleared:
  "resetInProgress (fst (checkAndResetIfNeeded_resume svc1 now settled)) = False
   \<and> (fst (checkAndResetIfNeeded_sync svc tw) \<noteq> None \<longrightarrow>
        resetInProgress (fst (checkAndResetIfNeeded cfg svc tw)) = False)"
  by (cases "checkAndResetIfNeeded_sync svc tw")
     (auto simp: checkAndResetIfNeeded_def split_beta resume_fields)


theorem resetInProgress_always_cleared_witness:
  "resetInProgress (fst (checkAndResetIfNeeded_resume (configuredService\<lparr>resetInProgress := True\<rparr>)
                          at1625 (Inl ReadError))) = False
   \<and> fst (checkAndResetIfNeeded_sync configuredService healthyTick) \<noteq> None
   \<and> resetInProgress (fst (checkAndResetIfNeeded globalConfig configuredService healthyTick)) = False"
proof -
  have st: "fst (checkAndResetIfNeeded_sync configuredService healthyTick) \<noteq> None"
    by (simp add: sync_cases configuredService_fields healthyTick_def at1625_def)
  show ?thesis
    using st resetInProgress_always_cleared
        [of "configuredService\<lparr>resetInProgress := True\<rparr>" at1625 "Inl ReadError"
            configuredService healthyTick globalConfig]
    by simp
qed


section \<open>Properties of the window scheduler\<close>

text \<open>
  What \<^verbatim>\<open>startScheduler\<close> leaves: the primary task when its expression is valid, the
  pre-check task when both expressions are valid, and an error otherwise.
\<close>

lemma startScheduler_fields:
  "scheduler (fst (startScheduler svc)) =
     (if cronValid \<lparr>cronMinutes = [(resetMinute svc, resetMinute svc + 14)],
                    cronHours = [resetHour svc]\<rparr>
      then Some \<lparr>cronMinutes = [(resetMinute svc, resetMinute svc + 14)],
                  cronHours = [resetHour svc]\<rparr>
      else None)"
  "preCheckScheduler (fst (startScheduler svc)) =
     (if cronValid \<lparr>cronMinutes = [(resetMinute svc, resetMinute svc + 14)],
                    cronHours = [resetHour svc]\<rparr> \<and>
         cronValid \<lparr>cronMinutes = [(if resetMinute svc = 0 then 55 else resetMinute svc - 5, 59),
                                    (0, resetMinute svc + 19)],
                    cronHours = [if resetMinute svc = 0
                                 then (if resetHour svc = 0 then 23 else resetHour svc - 1)
                                 else resetHour svc, resetHour svc]\<rparr>
      then Some \<lparr>cronMinutes = [(if resetMinute svc = 0 then 55 else resetMinute svc - 5, 59),
                                  (0, resetMinute svc + 19)],
                  cronHours = [if resetMinute svc = 0
                               then (if resetHour svc = 0 then 23 else resetHour svc - 1)
                               else resetHour svc, resetHour svc]\<rparr>
      else None)"
  "snd (snd (startScheduler svc)) =
     (if cronValid \<lparr>cronMinutes = [(resetMinute svc, resetMinute svc + 14)],
                    cronHours = [resetHour svc]\<rparr> \<and>
         cronValid \<lparr>cronMinutes = [(if resetMinute svc = 0 then 55 else resetMinute svc - 5, 59),
                                    (0, resetMinute svc + 19)],
                    cronHours = [if resetMinute svc = 0
                                 then (if resetHour svc = 0 then 23 else resetHour svc - 1)
                                 else resetHour svc, resetHour svc]\<rparr>
      then None else Some InvalidCronExpression)"
  by (simp_all add: startScheduler_def stopScheduler_def Let_def)

lemma valid_expressions:
  assumes "0 \<le> resetHour svc" and "resetHour svc \<le> 23"
    and "resetMinute svc = 0 \<or> (5 \<le> resetMinute svc \<and> resetMinute svc \<le> 40)"
  shows "cronValid \<lparr>cronMinutes = [(resetMinute svc, resetMinute svc + 14)],
                    cronHours = [resetHour svc]\<rparr>"
    and "cronValid \<lparr>cronMinutes = [(if resetMinute svc = 0 then 55 else resetMinute svc - 5, 59),
                                    (0, resetMinute svc + 19)],
                    cronHours = [if resetMinute svc = 0
                                 then (if resetHour svc = 0 then 23 else resetHour svc - 1)
                                 else resetHour svc, resetHour svc]\<rparr>"
  using assms by (auto simp: cronValid_def)

lemma preCheck_schedule:
  assumes "0 \<le> resetHour svc" and "resetHour svc \<le> 23"
    and "resetMinute svc = 0 \<or> (5 \<le> resetMinute svc \<and> resetMinute svc \<le> 40)"
  shows "preCheckScheduler (fst (startScheduler svc)) =
     Some \<lparr>cronMinutes = [(if resetMinute svc = 0 then 55 else resetMinute svc - 5, 59),
                          (0, resetMinute svc + 19)],
           cronHours = [if resetMinute svc = 0 then (if resetHour svc = 0 then 23 else resetHour svc - 1)
                        else resetHour svc, resetHour svc]\<rparr>"
  using valid_expressions [OF assms] by (simp only: startScheduler_fields if_True simp_thms)

lemma preCheckFires_startScheduler:
  assumes "0 \<le> resetHour svc" and "resetHour svc \<le> 23"
    and "resetMinute svc = 0 \<or> (5 \<le> resetMinute svc \<and> resetMinute svc \<le> 40)"
  shows "preCheckFires (fst (startScheduler svc)) h m \<longleftrightarrow>
     (h = (if resetMinute svc = 0 then (if resetHour svc = 0 then 23 else resetHour svc - 1)
           else resetHour svc) \<or> h = resetHour svc) \<and>
     ((if resetMinute svc = 0 then 55 else resetMinute svc - 5) \<le> m \<and> m \<le> 59 \<or>
      0 \<le> m \<and> m \<le> resetMinute svc + 19)"
  unfolding preCheckFires_def preCheck_schedule [OF assms]
  by (auto simp: cronFires_def)

text \<open>
  C8, as stated, fails. With the shipped schedule (16:24, primary window 16:24 to 16:38)
  the pre-check expression is \<^verbatim>\<open>*/1 19-59,0-43 16,16 * * *\<close>. It fires at 16:43, which
  is after the end of the primary window, and its two minute ranges together cover the whole
  hour, so it also fires at 16:59 and at 16:00; none of these lies in the window from 5
  minutes before the start of the primary window to its end.
\<close>

theorem preCheck_fires_outside_spec_window:
  "resetHour configuredService = 16 \<and> resetMinute configuredService = 24
   \<and> preCheckFires (fst (startScheduler configuredService)) 16 43
   \<and> \<not> spec_preCheckWindow 16 24 16 43
   \<and> preCheckFires (fst (startScheduler configuredService)) 16 59
   \<and> \<not> spec_preCheckWindow 16 24 16 59
   \<and> preCheckFires (fst (startScheduler configuredService)) 16 0
   \<and> \<not> spec_preCheckWindow 16 24 16 0"
proof -
  have v: "0 \<le> resetHour configuredService" "resetHour configuredService \<le> 23"
    "resetMinute configuredService = 0 \<or>
     (5 \<le> resetMinute configuredService \<and> resetMinute configuredService \<le> 40)"
    by (simp_all add: configuredService_fields)
  show ?thesis
    by (simp add: preCheckFires_startScheduler [OF v] configuredService_fields
        spec_preCheckWindow_def)
qed


lemma mod_window:
  fixes x :: int
  assumes "- 1440 < x" and "x < 2 * 1440" and "x mod 1440 < 25"
  shows "(0 \<le> x \<and> x < 25) \<or> (- 1440 \<le> x \<and> x < - 1415) \<or> (1440 \<le> x \<and> x < 1465)"
proof -
  consider "x < 0" | "0 \<le> x \<and> x < 1440" | "1440 \<le> x" by linarith
  then show ?thesis
  proof cases
    case 1
    have "(x + 1440) mod 1440 = x + 1440" using 1 assms(1) by (intro mod_pos_pos_trivial) auto
    then have "x mod 1440 = x + 1440" by simp
    then show ?thesis using assms(3) 1 by simp
  next
    case 2
    then have "x mod 1440 = x" by simp
    then show ?thesis using assms(3) 2 by simp
  next
    case 3
    have "(x - 1440) mod 1440 = x - 1440" using 3 assms(2) by (intro mod_pos_pos_trivial) auto
    then have "x mod 1440 = x - 1440" by simp
    then show ?thesis using assms(3) 3 by simp
  qed
qed

lemma valid_preCheck:
  assumes "0 \<le> resetHour svc" and "resetHour svc \<le> 23"
    and "resetMinute svc = 0 \<or> (5 \<le> resetMinute svc \<and> resetMinute svc \<le> 40)"
  shows "\<exists>sch. preCheckScheduler (fst (startScheduler svc)) = Some sch \<and> cronValid sch"
  using valid_expressions(2) [OF assms] unfolding preCheck_schedule [OF assms] by simp

lemma window_minute_zero:
  fixes h m H :: int
  assumes "0 \<le> m" and "m \<le> 59" and "H * 60 - 5 \<le> h * 60 + m" and "h * 60 + m < H * 60 + 20"
  shows "(h = H \<and> m \<le> 19) \<or> (h = H - 1 \<and> 55 \<le> m)"
proof -
  have up: "h \<le> H" using assms by linarith
  have lo: "H - 1 \<le> h" using assms by linarith
  then consider "h = H" | "h = H - 1" using up by linarith
  then show ?thesis
  proof cases
    case 1
    then show ?thesis using assms by simp
  next
    case 2
    then have "55 \<le> m" using assms by simp
    then show ?thesis using 2 by simp
  qed
qed

lemma window_minute_pos:
  fixes h m H M :: int
  assumes "0 \<le> m" and "m \<le> 59" and "5 \<le> M" and "M \<le> 40"
    and "H * 60 + M - 5 \<le> h * 60 + m" and "h * 60 + m < H * 60 + M + 20"
  shows "h = H"
proof -
  have up: "h \<le> H" using assms by linarith
  have lo: "H \<le> h" using assms by linarith
  show ?thesis using up lo by simp
qed

lemma preCheck_fires_in_extended_window:
  assumes H: "0 \<le> resetHour svc" "resetHour svc \<le> 23"
    and M: "resetMinute svc = 0 \<or> (5 \<le> resetMinute svc \<and> resetMinute svc \<le> 40)"
    and h: "0 \<le> h" "h \<le> 23" and m: "0 \<le> m" "m \<le> 59"
    and w: "extendedWindow (resetHour svc) (resetMinute svc) h m"
  shows "preCheckFires (fst (startScheduler svc)) h m"
proof -
  define x where "x = h * 60 + m - (resetHour svc * 60 + resetMinute svc - 5)"
  have xm: "x mod 1440 < 25" using w by (simp add: extendedWindow_def x_def)
  have x1: "- 1415 \<le> x" unfolding x_def using H M h m by linarith
  have x2: "x \<le> 1444" unfolding x_def using H M h m by linarith
  from mod_window [of x] xm x1 x2
  consider (A) "0 \<le> x" "x < 25" | (C) "1440 \<le> x" by fastforce
  then show ?thesis
  proof cases
    case A
    show ?thesis
    proof (cases "resetMinute svc = 0")
      case True
      have "(h = resetHour svc \<and> m \<le> 19) \<or> (h = resetHour svc - 1 \<and> 55 \<le> m)"
        using window_minute_zero [of m "resetHour svc" h] A m True by (simp add: x_def)
      then show ?thesis
      proof
        assume "h = resetHour svc \<and> m \<le> 19"
        then show ?thesis using m True by (simp add: preCheckFires_startScheduler [OF H M])
      next
        assume a: "h = resetHour svc - 1 \<and> 55 \<le> m"
        then have "resetHour svc \<noteq> 0" using h by auto
        then show ?thesis using a m True by (simp add: preCheckFires_startScheduler [OF H M])
      qed
    next
      case False
      then have M5: "5 \<le> resetMinute svc" "resetMinute svc \<le> 40" using M by auto
      have hh: "h = resetHour svc"
        using window_minute_pos [of m "resetMinute svc" "resetHour svc" h] A m M5
        by (simp add: x_def)
      then have "resetMinute svc - 5 \<le> m" using A(1) by (simp add: x_def)
      then show ?thesis using hh m False by (simp add: preCheckFires_startScheduler [OF H M])
    qed
  next
    case C
    then have s: "resetHour svc * 60 + resetMinute svc \<le> 4"
      unfolding x_def using h m by linarith
    then have M0: "resetMinute svc = 0" using M H by linarith
    then have H0: "resetHour svc = 0" using s H by linarith
    have t: "1435 \<le> h * 60 + m" using C M0 H0 by (simp add: x_def)
    then have h23: "h = 23" using h m by linarith
    then have "55 \<le> m" using t by simp
    then show ?thesis using h23 m M0 H0 by (simp add: preCheckFires_startScheduler [OF H M])
  qed
qed

text \<open>
  For a reset minute from 1 to 4 the start of the pre-check window is not wrapped into the
  previous hour: \<^verbatim>\<open>this.resetMinute - 5\<close> is negative, the minute field is out of
  range, \<^verbatim>\<open>cron.schedule\<close> throws and no pre-check task exists.
\<close>

lemma preCheck_misses_wrap_below_five:
  "extendedWindow 16 3 15 58
   \<and> \<not> preCheckFires (fst (startScheduler (configuredService\<lparr>resetMinute := 3\<rparr>))) 15 58
   \<and> preCheckScheduler (fst (startScheduler (configuredService\<lparr>resetMinute := 3\<rparr>))) = None
   \<and> snd (snd (startScheduler (configuredService\<lparr>resetMinute := 3\<rparr>))) =
       Some InvalidCronExpression
   \<and> \<not> cronValid \<lparr>cronMinutes = [(- 2, 59), (0, 22)], cronHours = [16, 16]\<rparr>"
  by (simp add: preCheckFires_def startScheduler_fields configuredService_fields
      extendedWindow_def cronValid_def)

text \<open>
  C8, amended. For a reset hour from 0 to 23 and a reset minute that is 0 or from 5 to 40,
  the pre-check expression is a valid cron expression and the pre-check task fires at every
  clock minute from 5 minutes before the start of the primary window through 5 minutes
  after its end, as the comment of line 264 announces; for reset minute 0 these include
  minutes 55 to 59 of the previous hour, hour 23 when the reset hour is 0. Whether it fires
  at other minutes as well is left open.
\<close>

theorem preCheck_covers_extended_window:
  assumes "0 \<le> resetHour svc" and "resetHour svc \<le> 23"
    and "resetMinute svc = 0 \<or> (5 \<le> resetMinute svc \<and> resetMinute svc \<le> 40)"
    and "0 \<le> h" and "h \<le> 23" and "0 \<le> m" and "m \<le> 59"
    and "extendedWindow (resetHour svc) (resetMinute svc) h m"
  shows "preCheckFires (fst (startScheduler svc)) h m
     \<and> (\<exists>sch. preCheckScheduler (fst (startScheduler svc)) = Some sch \<and> cronValid sch)"
  using preCheck_fires_in_extended_window [OF assms] valid_preCheck [OF assms(1-3)] by simp

theorem preCheck_covers_extended_window_witness:
  "extendedWindow 16 24 16 19
   \<and> preCheckFires (fst (startScheduler configuredService)) 16 19
   \<and> extendedWindow 16 24 16 43
   \<and> preCheckFires (fst (startScheduler configuredService)) 16 43
   \<and> extendedWindow 0 0 23 55
   \<and> preCheckFires (fst (startScheduler (configuredService\<lparr>resetHour := 0, resetMinute := 0\<rparr>))) 23 55"
proof -
  have w: "extendedWindow 16 24 16 19" "extendedWindow 16 24 16 43" "extendedWindow 0 0 23 55"
    by (simp_all add: extendedWindow_def)
  show ?thesis
    using w
      preCheck_covers_extended_window [of configuredService 16 19]
      preCheck_covers_extended_window [of configuredService 16 43]
      preCheck_covers_extended_window [of "configuredService\<lparr>resetHour := 0, resetMinute := 0\<rparr>" 23 55]
    by (simp add: configuredService_fields)
qed


section \<open>Properties of startup\<close>

lemma connectionPromise_resolves: "fst (connectionPromise code lw) = Inr ()"
  by (simp add: connectionPromise_def tryConnect_def)

lemma promiseAll_connectionPromises:
  "promiseAll (map fst (map (\<lambda>(code, m). connectionPromise code (lws code)) ms)) =
   Inr (map (\<lambda>x. ()) ms)"
  by (induction ms) (auto simp: connectionPromise_resolves split_beta)

lemma connect_resolves: "fst (connect svc lws) = Inr (map (\<lambda>x. ()) (machines svc))"
  using promiseAll_connectionPromises [of lws "machines svc"]
  by (simp only: connect_def Let_def fst_conv)

lemma connect_trace_mem:
  "(code, m) \<in> set (machines svc) \<Longrightarrow> e \<in> set (snd (connectionPromise code (lws code))) \<Longrightarrow>
   e \<in> set (snd (connect svc lws))"
  by (force simp: connect_def Let_def)

text \<open>
  \<^verbatim>\<open>start\<close> never takes the branch of a rejected \<^verbatim>\<open>connect\<close>: after the trace of
  \<^verbatim>\<open>connect\<close> it calls \<^verbatim>\<open>startScheduler\<close>, and what it returns depends on that call
  alone.
\<close>

lemma start_after_connect:
  "connect svc lws = (Inr u, tr) \<Longrightarrow>
   start svc lws lws' =
     (case startScheduler svc of
        (svc1, tr1, None) \<Rightarrow>
          (Running, svc1,
           [Log Info ''Initializing Reset Service...'' []] @ tr
           @ [Log Info ''Starting reset scheduler...'' []] @ tr1
           @ [Log Info ''Reset Service initialized successfully'' []])
      | (svc1, tr1, Some e) \<Rightarrow>
          (case cleanup svc1 lws' of
             (svc2, tr2) \<Rightarrow>
               (Exit 1, svc2,
                [Log Info ''Initializing Reset Service...'' []] @ tr
                @ [Log Info ''Starting reset scheduler...'' []] @ tr1
                @ [Log Error ''Reset Service initialization error:'' []] @ tr2)))"
  by (simp only: start_def prod.case sum.case)

lemma start_proceeds:
  "start svc lws lws' =
     (case startScheduler svc of
        (svc1, tr1, None) \<Rightarrow>
          (Running, svc1,
           [Log Info ''Initializing Reset Service...'' []] @ snd (connect svc lws)
           @ [Log Info ''Starting reset scheduler...'' []] @ tr1
           @ [Log Info ''Reset Service initialized successfully'' []])
      | (svc1, tr1, Some e) \<Rightarrow>
          (case cleanup svc1 lws' of
             (svc2, tr2) \<Rightarrow>
               (Exit 1, svc2,
                [Log Info ''Initializing Reset Service...'' []] @ snd (connect svc lws)
                @ [Log Info ''Starting reset scheduler...'' []] @ tr1
                @ [Log Error ''Reset Service initialization error:'' []] @ tr2)))"
proof -
  have "connect svc lws = (Inr (map (\<lambda>x. ()) (machines svc)), snd (connect svc lws))"
    using connect_resolves [of svc lws] by (metis prod.collapse)
  then show ?thesis by (rule start_after_connect)
qed

lemma start_lifecycle:
  "fst (start svc lws lws') = (if snd (snd (startScheduler svc)) = None then Running else Exit 1)"
  "snd (snd (startScheduler svc)) = None \<Longrightarrow>
   fst (snd (start svc lws lws')) = fst (startScheduler svc)"
proof -
  obtain svc1 tr1 e where ss: "startScheduler svc = (svc1, tr1, e)"
    by (cases "startScheduler svc") auto
  obtain svc2 tr2 where cl: "cleanup svc1 lws' = (svc2, tr2)" by (cases "cleanup svc1 lws'")
  show "fst (start svc lws lws') =
      (if snd (snd (startScheduler svc)) = None then Running else Exit 1)"
    unfolding start_proceeds ss by (cases e) (simp_all add: cl)
  show "snd (snd (startScheduler svc)) = None \<Longrightarrow>
      fst (snd (start svc lws lws')) = fst (startScheduler svc)"
    unfolding start_proceeds ss by (cases e) (simp_all add: cl)
qed

lemma expressions_valid_iff:
  "(cronValid \<lparr>cronMinutes = [(resetMinute svc, resetMinute svc + 14)],
                cronHours = [resetHour svc]\<rparr> \<and>
    cronValid \<lparr>cronMinutes = [(if resetMinute svc = 0 then 55 else resetMinute svc - 5, 59),
                               (0, resetMinute svc + 19)],
               cronHours = [if resetMinute svc = 0
                            then (if resetHour svc = 0 then 23 else resetHour svc - 1)
                            else resetHour svc, resetHour svc]\<rparr>) \<longleftrightarrow>
   (0 \<le> resetHour svc \<and> resetHour svc \<le> 23 \<and>
    (resetMinute svc = 0 \<or> (5 \<le> resetMinute svc \<and> resetMinute svc \<le> 40)))"
  by (auto simp: cronValid_def)

text \<open>
  C10. \<^verbatim>\<open>connect\<close> resolves for every behaviour of the gateways: it never rejects.
  Every machine of the table that is not connected has its connection attempted, whatever
  happened to the others, and each failed attempt is caught and logged with the machine's
  code. \<^verbatim>\<open>start\<close> therefore always goes on, after the trace of \<^verbatim>\<open>connect\<close>, to
  \<^verbatim>\<open>startScheduler\<close>, also when every device failed to connect, and its outcome is
  that of \<^verbatim>\<open>startScheduler\<close>: it returns normally, with the two timers that
  \<^verbatim>\<open>startScheduler\<close> creates, exactly when both cron expressions are valid (reset hour
  from 0 to 23, reset minute 0 or from 5 to 40, the shipped 16:24 included), and exits
  with code 1 after \<^verbatim>\<open>cleanup\<close> when \<^verbatim>\<open>cron.schedule\<close> throws.
\<close>

theorem connect_never_rejects:
  "fst (connect svc lws) = Inr (map (\<lambda>x. ()) (machines svc))
   \<and> ((code, m) \<in> set (machines svc) \<and> \<not> linkConnected (lws code) \<longrightarrow>
        Connect code (linkConnectOk (lws code)) \<in> set (snd (connect svc lws)))
   \<and> ((code, m) \<in> set (machines svc) \<and> \<not> linkConnected (lws code) \<and>
        \<not> linkConnectOk (lws code) \<longrightarrow>
        Log Error (''Failed to connect to PLC '' @ code @ '' for reset service:'') []
          \<in> set (snd (connect svc lws)))
   \<and> start svc lws lws' =
       (case startScheduler svc of
          (svc1, tr1, None) \<Rightarrow>
            (Running, svc1,
             [Log Info ''Initializing Reset Service...'' []] @ snd (connect svc lws)
             @ [Log Info ''Starting reset scheduler...'' []] @ tr1
             @ [Log Info ''Reset Service initialized successfully'' []])
        | (svc1, tr1, Some e) \<Rightarrow>
            (case cleanup svc1 lws' of
               (svc2, tr2) \<Rightarrow>
                 (Exit 1, svc2,
                  [Log Info ''Initializing Reset Service...'' []] @ snd (connect svc lws)
                  @ [Log Info ''Starting reset scheduler...'' []] @ tr1
                  @ [Log Error ''Reset Service initialization error:'' []] @ tr2)))
   \<and> (fst (start svc lws lws') = Running \<longleftrightarrow>
        0 \<le> resetHour svc \<and> resetHour svc \<le> 23 \<and>
        (resetMinute svc = 0 \<or> (5 \<le> resetMinute svc \<and> resetMinute svc \<le> 40)))
   \<and> (fst (start svc lws lws') \<noteq> Running \<longrightarrow> fst (start svc lws lws') = Exit 1)
   \<and> (fst (start svc lws lws') = Running \<longrightarrow>
        scheduler (fst (snd (start svc lws lws'))) =
          Some \<lparr>cronMinutes = [(resetMinute svc, resetMinute svc + 14)],
                cronHours = [resetHour svc]\<rparr> \<and>
        preCheckScheduler (fst (snd (start svc lws lws'))) =
          Some \<lparr>cronMinutes = [(if resetMinute svc = 0 then 55 else resetMinute svc - 5, 59),
                                (0, resetMinute svc + 19)],
                cronHours = [if resetMinute svc = 0
                             then (if resetHour svc = 0 then 23 else resetHour svc - 1)
                             else resetHour svc, resetHour svc]\<rparr>)"
proof -
  have c: "fst (connect svc lws) = Inr (map (\<lambda>x. ()) (machines svc))" by (rule connect_resolves)
  have a: "(code, m) \<in> set (machines svc) \<and> \<not> linkConnected (lws code) \<longrightarrow>
        Connect code (linkConnectOk (lws code)) \<in> set (snd (connect svc lws))"
    using connect_trace_mem [of code m svc "Connect code (linkConnectOk (lws code))" lws]
    by (auto simp: connectionPromise_def tryConnect_def)
  have b: "(code, m) \<in> set (machines svc) \<and> \<not> linkConnected (lws code) \<and>
        \<not> linkConnectOk (lws code) \<longrightarrow>
        Log Error (''Failed to connect to PLC '' @ code @ '' for reset service:'') []
          \<in> set (snd (connect svc lws))"
    using connect_trace_mem [of code m svc
        "Log Error (''Failed to connect to PLC '' @ code @ '' for reset service:'') []" lws]
    by (auto simp: connectionPromise_def tryConnect_def)
  have none_iff: "snd (snd (startScheduler svc)) = None \<longleftrightarrow>
      0 \<le> resetHour svc \<and> resetHour svc \<le> 23 \<and>
      (resetMinute svc = 0 \<or> (5 \<le> resetMinute svc \<and> resetMinute svc \<le> 40))"
    unfolding startScheduler_fields(3) using expressions_valid_iff [of svc] by simp
  have run_iff: "fst (start svc lws lws') = Running \<longleftrightarrow>
      0 \<le> resetHour svc \<and> resetHour svc \<le> 23 \<and>
      (resetMinute svc = 0 \<or> (5 \<le> resetMinute svc \<and> resetMinute svc \<le> 40))"
    using none_iff by (simp add: start_lifecycle(1))
  have ex: "fst (start svc lws lws') \<noteq> Running \<longrightarrow> fst (start svc lws lws') = Exit 1"
    by (simp add: start_lifecycle(1))
  have tm: "fst (start svc lws lws') = Running \<longrightarrow>
        scheduler (fst (snd (start svc lws lws'))) =
          Some \<lparr>cronMinutes = [(resetMinute svc, resetMinute svc + 14)],
                cronHours = [resetHour svc]\<rparr> \<and>
        preCheckScheduler (fst (snd (start svc lws lws'))) =
          Some \<lparr>cronMinutes = [(if resetMinute svc = 0 then 55 else resetMinute svc - 5, 59),
                                (0, resetMinute svc + 19)],
                cronHours = [if resetMinute svc = 0
                             then (if resetHour svc = 0 then 23 else resetHour svc - 1)
                             else resetHour svc, resetHour svc]\<rparr>"
  proof
    assume r: "fst (start svc lws lws') = Running"
    then have n: "snd (snd (startScheduler svc)) = None"
      by (simp add: start_lifecycle(1) split: if_splits)
    then have v: "0 \<le> resetHour svc" "resetHour svc \<le> 23"
      "resetMinute svc = 0 \<or> (5 \<le> resetMinute svc \<and> resetMinute svc \<le> 40)"
      using none_iff by auto
    show "scheduler (fst (snd (start svc lws lws'))) =
          Some \<lparr>cronMinutes = [(resetMinute svc, resetMinute svc + 14)],
                cronHours = [resetHour svc]\<rparr> \<and>
        preCheckScheduler (fst (snd (start svc lws lws'))) =
          Some \<lparr>cronMinutes = [(if resetMinute svc = 0 then 55 else resetMinute svc - 5, 59),
                                (0, resetMinute svc + 19)],
                cronHours = [if resetMinute svc = 0
                             then (if resetHour svc = 0 then 23 else resetHour svc - 1)
                             else resetHour svc, resetHour svc]\<rparr>"
      unfolding start_lifecycle(2) [OF n]
      using valid_expressions [OF v] preCheck_schedule [OF v]
      by (simp only: startScheduler_fields(1) if_True simp_thms)
  qed
  show ?thesis by (intro conjI c a b start_proceeds run_iff ex tm)
qed

theorem connect_never_rejects_witness:
  "(''45047'', freshMachine ''45047'' ''10.42.46.5'') \<in> set (machines configuredService)
   \<and> \<not> linkConnected (unreachableFleet ''45047'') \<and> \<not> linkConnectOk (unreachableFleet ''45047'')
   \<and> fst (connect configuredService unreachableFleet) = Inr [(), (), (), (), ()]
   \<and> Connect ''45047'' False \<in> set (snd (connect configuredService unreachableFleet))
   \<and> Log Error ''Failed to connect to PLC 45047 for reset service:'' []
        \<in> set (snd (connect configuredService unreachableFleet))
   \<and> fst (start configuredService unreachableFleet unreachableFleet) = Running
   \<and> scheduler (fst (snd (start configuredService unreachableFleet unreachableFleet))) =
       Some \<lparr>cronMinutes = [(24, 38)], cronHours = [16]\<rparr>
   \<and> preCheckScheduler (fst (snd (start configuredService unreachableFleet unreachableFleet))) =
       Some \<lparr>cronMinutes = [(19, 59), (0, 43)], cronHours = [16, 16]\<rparr>
   \<and> fst (start (configuredService\<lparr>resetMinute := 50\<rparr>) unreachableFleet unreachableFleet) =
       Exit 1"
proof -
  have mem: "(''45047'', freshMachine ''45047'' ''10.42.46.5'') \<in> set (machines configuredService)"
    by (simp add: machines_configuredService)
  note t = connect_never_rejects [of configuredService unreachableFleet "''45047''"
      "freshMachine ''45047'' ''10.42.46.5''" unreachableFleet]
  note u = connect_never_rejects [of "configuredService\<lparr>resetMinute := 50\<rparr>" unreachableFleet
      "''45047''" "freshMachine ''45047'' ''10.42.46.5''" unreachableFleet]
  note t1 = t [THEN conjunct1]
  note t2 = t [THEN conjunct2, THEN conjunct1]
  note t3 = t [THEN conjunct2, THEN conjunct2, THEN conjunct1]
  note t5 = t [THEN conjunct2, THEN conjunct2, THEN conjunct2, THEN conjunct2, THEN conjunct1]
  note t7 = t [THEN conjunct2, THEN conjunct2, THEN conjunct2, THEN conjunct2, THEN conjunct2,
      THEN conjunct2]
  note u5 = u [THEN conjunct2, THEN conjunct2, THEN conjunct2, THEN conjunct2, THEN conjunct1]
  note u6 = u [THEN conjunct2, THEN conjunct2, THEN conjunct2, THEN conjunct2, THEN conjunct2,
      THEN conjunct1]
  have run: "fst (start configuredService unreachableFleet unreachableFleet) = Running"
    using t5 by (simp add: configuredService_fields)
  have ex: "fst (start (configuredService\<lparr>resetMinute := 50\<rparr>) unreachableFleet unreachableFleet) =
      Exit 1"
    using u5 u6 by (simp add: configuredService_fields)
  show ?thesis
    using mem t1 t2 t3 t7 run ex
    by (simp add: unreachableFleet_def machines_configuredService configuredService_fields)
qed

end
